theory Spec2Isabelle
  imports Main
begin

section \<open>Strings\<close>

text \<open>
  A string is a list of 8-bit characters: the model covers the inputs whose UTF-16 code
  units are all below 256. Among these, \<open>String.prototype.trim\<close> and the regular
  expression class \<open>\s\<close> take TAB, LF, VT, FF, CR, SPACE and NBSP for white space, and the
  class \<open>\w\<close> is \<open>[A-Za-z0-9_]\<close>. The case conversions are modelled on the 26 ASCII
  letters and leave every other character as it is. The parser uses \<open>toUpperCase\<close> only to
  compare a line with the five ASCII language tags, and \<open>toLowerCase\<close> only inside
  \<open>slugify\<close>, which then deletes every character above 127 but NBSP: in both uses the
  outcome is JavaScript's for every character below 256.
\<close>

definition isWhiteSpace :: "char \<Rightarrow> bool" where
  "isWhiteSpace c =
     (c \<in> set [CHR 0x09, CHR 0x0A, CHR 0x0B, CHR 0x0C, CHR 0x0D, CHR 0x20, CHR 0xA0])"

definition trim :: "string \<Rightarrow> string" where
  "trim s = rev (dropWhile isWhiteSpace (rev (dropWhile isWhiteSpace s)))"

definition upperLetters :: string where
  "upperLetters = ''ABCDEFGHIJKLMNOPQRSTUVWXYZ''"

definition lowerLetters :: string where
  "lowerLetters = ''abcdefghijklmnopqrstuvwxyz''"

definition toUpperChar :: "char \<Rightarrow> char" where
  "toUpperChar c = (case map_of (zip lowerLetters upperLetters) c of None \<Rightarrow> c | Some d \<Rightarrow> d)"

definition toLowerChar :: "char \<Rightarrow> char" where
  "toLowerChar c = (case map_of (zip upperLetters lowerLetters) c of None \<Rightarrow> c | Some d \<Rightarrow> d)"

definition toUpperCase :: "string \<Rightarrow> string" where
  "toUpperCase s = map toUpperChar s"

definition toLowerCase :: "string \<Rightarrow> string" where
  "toLowerCase s = map toLowerChar s"

definition startsWith :: "string \<Rightarrow> string \<Rightarrow> bool" where
  "startsWith s p = (take (length p) s = p)"

text \<open>\<open>s.replace(pat, rep)\<close> with a string pattern: the first occurrence only.\<close>

fun replaceFirst :: "string \<Rightarrow> string \<Rightarrow> string \<Rightarrow> string" where
  "replaceFirst pat rep [] = (if pat = [] then rep else [])"
| "replaceFirst pat rep (c # cs) =
     (if startsWith (c # cs) pat then rep @ drop (length pat) (c # cs)
      else c # replaceFirst pat rep cs)"

text \<open>\<open>s.split(d)\<close> for a one-character separator: never an empty array.\<close>

fun split :: "char \<Rightarrow> string \<Rightarrow> string list" where
  "split d [] = [[]]"
| "split d (c # cs) =
     (let r = split d cs in if c = d then [] # r else (c # hd r) # tl r)"

text \<open>A number in a template literal: its decimal digits.\<close>

definition digitChar :: "nat \<Rightarrow> char" where
  "digitChar n = ''0123456789'' ! (n mod 10)"

function numberToString :: "nat \<Rightarrow> string" where
  "numberToString n =
     (if n < 10 then [digitChar n] else numberToString (n div 10) @ [digitChar n])"
  by pat_completeness auto
termination
  by (relation "measure id") auto

declare numberToString.simps [simp del]

text \<open>\<open>a || b\<close> on strings: the empty string is falsy.\<close>

definition orElse :: "string \<Rightarrow> string \<Rightarrow> string" where
  "orElse a b = (if a = [] then b else a)"

subsection \<open>slugify\<close>

text \<open>
  \<^verbatim>\<open>text.toLowerCase().trim().replace(/[^\w\s-]/g, '')
      .replace(/[\s_-]+/g, '-').replace(/^-+|-+$/g, '')\<close>
\<close>

definition isWordChar :: "char \<Rightarrow> bool" where
  "isWordChar c = (c \<in> set (lowerLetters @ upperLetters @ ''0123456789_''))"

definition keptInSlug :: "char \<Rightarrow> bool" where
  "keptInSlug c = (isWordChar c \<or> isWhiteSpace c \<or> c = CHR ''-'')"

definition isSeparator :: "char \<Rightarrow> bool" where
  "isSeparator c = (isWhiteSpace c \<or> c = CHR ''_'' \<or> c = CHR ''-'')"

function collapseSeparators :: "string \<Rightarrow> string" where
  "collapseSeparators [] = []"
| "collapseSeparators (c # cs) =
     (if isSeparator c then CHR ''-'' # collapseSeparators (dropWhile isSeparator cs)
      else c # collapseSeparators cs)"
  by pat_completeness auto
termination
  by (relation "measure length") (auto simp: length_dropWhile_le less_Suc_eq_le)

definition stripHyphens :: "string \<Rightarrow> string" where
  "stripHyphens s =
     rev (dropWhile (\<lambda>c. c = CHR ''-'') (rev (dropWhile (\<lambda>c. c = CHR ''-'') s)))"

definition slugify :: "string \<Rightarrow> string" where
  "slugify text =
     stripHyphens (collapseSeparators (filter keptInSlug (trim (toLowerCase text))))"

section \<open>The document model\<close>

datatype Language = ENGLISH | COPTIC | ARABIC | TRANSLITERATED_ENGLISH | TRANSLITERATED_ARABIC

datatype PartType = Prayer | Hymn | Reading | Instruction

datatype ItemType = Category | Book

text \<open>
  \<open>content\<close> is an object keyed by Language: an association list in the order in which
  the keys were first written. The parser never sets a Part's optional \<open>title\<close>.
\<close>

record LiturgicalPart =
  part_id :: string
  part_type :: PartType
  content :: "(Language \<times> string list) list"

record LiturgySection =
  sec_id :: string
  sec_title :: string
  parts :: "LiturgicalPart list"

text \<open>\<open>children\<close> and \<open>sections\<close> are optional fields: \<open>None\<close> is \<open>undefined\<close>.\<close>

datatype LibraryItem =
  LibraryItem (item_id: string) (item_title: string) (item_type: ItemType)
    (children: "LibraryItem list option") (sections: "LiturgySection list option")

section \<open>The store\<close>

text \<open>
  The parser builds objects and keeps references to them in its cursors while the same
  objects sit in their parents' arrays. The store gives every object an address; an array
  of objects is a list of addresses. A Category object is written without \<open>sections\<close> and
  a Book object without \<open>children\<close>, and the parser puts only Books into \<open>children\<close>, so
  the two kinds have a store each.
\<close>

record SectionObj =
  so_id :: string
  so_title :: string
  so_parts :: "nat list"

record BookObj =
  bo_id :: string
  bo_title :: string
  bo_sections :: "nat list option"

record CategoryObj =
  co_id :: string
  co_title :: string
  co_children :: "nat list option"

record parser_state =
  library :: "nat list"
  categoryStore :: "nat \<Rightarrow> CategoryObj"
  bookStore :: "nat \<Rightarrow> BookObj"
  sectionStore :: "nat \<Rightarrow> SectionObj"
  partStore :: "nat \<Rightarrow> LiturgicalPart"
  nextCategory :: nat
  nextBook :: nat
  nextSection :: nat
  nextPart :: nat
  currentCat :: "nat option"
  currentBook :: "nat option"
  currentSection :: "nat option"
  currentPart :: "nat option"
  currentLang :: "Language option"
  partCount :: nat

definition initialState :: parser_state where
  "initialState =
     \<lparr>library = [],
      categoryStore = (\<lambda>_. \<lparr>co_id = [], co_title = [], co_children = None\<rparr>),
      bookStore = (\<lambda>_. \<lparr>bo_id = [], bo_title = [], bo_sections = None\<rparr>),
      sectionStore = (\<lambda>_. \<lparr>so_id = [], so_title = [], so_parts = []\<rparr>),
      partStore = (\<lambda>_. \<lparr>part_id = [], part_type = Prayer, content = []\<rparr>),
      nextCategory = 0, nextBook = 0, nextSection = 0, nextPart = 0,
      currentCat = None, currentBook = None, currentSection = None, currentPart = None,
      currentLang = None, partCount = 0\<rparr>"

text \<open>Reading the tree that the returned \<open>library\<close> array denotes.\<close>

definition resolveSection :: "parser_state \<Rightarrow> nat \<Rightarrow> LiturgySection" where
  "resolveSection s a =
     \<lparr>sec_id = so_id (sectionStore s a), sec_title = so_title (sectionStore s a),
      parts = map (partStore s) (so_parts (sectionStore s a))\<rparr>"

definition resolveBook :: "parser_state \<Rightarrow> nat \<Rightarrow> LibraryItem" where
  "resolveBook s b =
     LibraryItem (bo_id (bookStore s b)) (bo_title (bookStore s b)) Book None
       (map_option (map (resolveSection s)) (bo_sections (bookStore s b)))"

definition resolveCategory :: "parser_state \<Rightarrow> nat \<Rightarrow> LibraryItem" where
  "resolveCategory s c =
     LibraryItem (co_id (categoryStore s c)) (co_title (categoryStore s c)) Category
       (map_option (map (resolveBook s)) (co_children (categoryStore s c))) None"

definition resolveLibrary :: "parser_state \<Rightarrow> LibraryItem list" where
  "resolveLibrary s = map (resolveCategory s) (library s)"

section \<open>ContentService.parseTextToLibrary\<close>

text \<open>
  Calling a method of \<open>undefined\<close> throws a TypeError: \<open>arr.push(x)\<close> on an optional
  array is the one place where the parser could.
\<close>

datatype error = TypeError

definition push :: "'a list option \<Rightarrow> 'a \<Rightarrow> error + 'a list" where
  "push arr x = (case arr of None \<Rightarrow> Inl TypeError | Some xs \<Rightarrow> Inr (xs @ [x]))"

definition andThen :: "error + 'a \<Rightarrow> ('a \<Rightarrow> error + 'b) \<Rightarrow> error + 'b" where
  "andThen r f = (case r of Inl e \<Rightarrow> Inl e | Inr x \<Rightarrow> f x)"

text \<open>
  \<^verbatim>\<open>const createNewPart = () => {
    partCount++;
    currentPart = { id: `part-${currentSection?.id || 'root'}-${partCount}`,
                    type: 'prayer', content: {} };
    if (currentSection) { currentSection.parts.push(currentPart); }
  };\<close>
\<close>

definition createNewPart :: "parser_state \<Rightarrow> parser_state" where
  "createNewPart s =
     (let n = partCount s + 1;
          sid = (case currentSection s of None \<Rightarrow> ''root''
                 | Some a \<Rightarrow> orElse (so_id (sectionStore s a)) ''root'');
          p = nextPart s;
          s1 = s\<lparr>partCount := n,
                 partStore := (partStore s)
                   (p := \<lparr>part_id = ''part-'' @ sid @ ''-'' @ numberToString n,
                          part_type = Prayer, content = []\<rparr>),
                 nextPart := Suc p,
                 currentPart := Some p\<rparr>
      in case currentSection s of
           None \<Rightarrow> s1
         | Some a \<Rightarrow>
             s1\<lparr>sectionStore := (sectionStore s1)
                   (a := (sectionStore s1 a)\<lparr>so_parts := so_parts (sectionStore s1 a) @ [p]\<rparr>)\<rparr>)"

definition sectionHeading :: "parser_state \<Rightarrow> string \<Rightarrow> error + parser_state" where
  "sectionHeading s trimmed =
     (let title = trim (replaceFirst ''###'' [] trimmed);
          bookTitle = (case currentBook s of None \<Rightarrow> [] | Some b \<Rightarrow> orElse (bo_title (bookStore s b)) []);
          a = nextSection s;
          s1 = s\<lparr>sectionStore := (sectionStore s)
                   (a := \<lparr>so_id = ''sec-'' @ slugify bookTitle @ ''-'' @ slugify title,
                          so_title = title, so_parts = []\<rparr>),
                 nextSection := Suc a,
                 currentSection := Some a\<rparr>
      in andThen
           (case currentBook s1 of
              None \<Rightarrow> Inr s1
            | Some b \<Rightarrow>
                (let s2 = (if bo_sections (bookStore s1 b) = None
                           then s1\<lparr>bookStore := (bookStore s1)(b := (bookStore s1 b)\<lparr>bo_sections := Some []\<rparr>)\<rparr>
                           else s1)
                 in andThen (push (bo_sections (bookStore s2 b)) a)
                      (\<lambda>ss. Inr (s2\<lparr>bookStore := (bookStore s2)(b := (bookStore s2 b)\<lparr>bo_sections := Some ss\<rparr>)\<rparr>))))
           (\<lambda>s3. Inr ((createNewPart (s3\<lparr>partCount := 0\<rparr>))\<lparr>currentLang := None\<rparr>)))"

definition bookHeading :: "parser_state \<Rightarrow> string \<Rightarrow> error + parser_state" where
  "bookHeading s trimmed =
     (let title = trim (replaceFirst ''##'' [] trimmed);
          catTitle = (case currentCat s of None \<Rightarrow> [] | Some c \<Rightarrow> orElse (co_title (categoryStore s c)) []);
          b = nextBook s;
          s1 = s\<lparr>bookStore := (bookStore s)
                   (b := \<lparr>bo_id = ''book-'' @ slugify catTitle @ ''-'' @ slugify title,
                          bo_title = title, bo_sections = Some []\<rparr>),
                 nextBook := Suc b,
                 currentBook := Some b\<rparr>
      in andThen
           (case currentCat s1 of
              None \<Rightarrow> Inr s1
            | Some c \<Rightarrow>
                (let s2 = (if co_children (categoryStore s1 c) = None
                           then s1\<lparr>categoryStore := (categoryStore s1)(c := (categoryStore s1 c)\<lparr>co_children := Some []\<rparr>)\<rparr>
                           else s1)
                 in andThen (push (co_children (categoryStore s2 c)) b)
                      (\<lambda>bs. Inr (s2\<lparr>categoryStore := (categoryStore s2)(c := (categoryStore s2 c)\<lparr>co_children := Some bs\<rparr>)\<rparr>))))
           (\<lambda>s3. Inr (s3\<lparr>currentSection := None, currentPart := None\<rparr>)))"

definition categoryHeading :: "parser_state \<Rightarrow> string \<Rightarrow> error + parser_state" where
  "categoryHeading s trimmed =
     (let title = trim (replaceFirst ''#'' [] trimmed);
          c = nextCategory s
      in Inr (s\<lparr>categoryStore := (categoryStore s)
                   (c := \<lparr>co_id = ''cat-'' @ slugify title, co_title = title, co_children = Some []\<rparr>),
                nextCategory := Suc c,
                library := library s @ [c],
                currentCat := Some c, currentBook := None,
                currentSection := None, currentPart := None\<rparr>))"

text \<open>
  \<^verbatim>\<open>if (!currentPart.content[currentLang]) { currentPart.content[currentLang] = []; }
  if (trimmed) { currentPart.content[currentLang]!.push(trimmed); }\<close>
\<close>

fun setContent ::
  "Language \<Rightarrow> string list \<Rightarrow> (Language \<times> string list) list \<Rightarrow> (Language \<times> string list) list" where
  "setContent l ps [] = [(l, ps)]"
| "setContent l ps ((k, v) # c) = (if k = l then (k, ps) # c else (k, v) # setContent l ps c)"

definition contentLine :: "parser_state \<Rightarrow> Language \<Rightarrow> nat \<Rightarrow> string \<Rightarrow> error + parser_state" where
  "contentLine s l p trimmed =
     (let c1 = (if map_of (content (partStore s p)) l = None
                then setContent l [] (content (partStore s p))
                else content (partStore s p))
      in if trimmed \<noteq> [] then
           andThen (push (map_of c1 l) trimmed)
             (\<lambda>ps. Inr (s\<lparr>partStore := (partStore s)(p := (partStore s p)\<lparr>content := setContent l ps c1\<rparr>)\<rparr>))
         else Inr (s\<lparr>partStore := (partStore s)(p := (partStore s p)\<lparr>content := c1\<rparr>)\<rparr>))"

definition step :: "parser_state \<Rightarrow> string \<Rightarrow> error + parser_state" where
  "step s line =
     (let trimmed = trim line in
      if trimmed = [] \<and> currentLang s = None then Inr s
      else if startsWith trimmed ''###'' then sectionHeading s trimmed
      else if startsWith trimmed ''##'' then bookHeading s trimmed
      else if startsWith trimmed ''#'' then categoryHeading s trimmed
      else if trimmed = ''---'' then Inr ((createNewPart s)\<lparr>currentLang := None\<rparr>)
      else if toUpperCase trimmed = ''[EN]'' then Inr (s\<lparr>currentLang := Some ENGLISH\<rparr>)
      else if toUpperCase trimmed = ''[COP]'' then Inr (s\<lparr>currentLang := Some COPTIC\<rparr>)
      else if toUpperCase trimmed = ''[AR]'' then Inr (s\<lparr>currentLang := Some ARABIC\<rparr>)
      else if toUpperCase trimmed = ''[TRAN-EN]'' then Inr (s\<lparr>currentLang := Some TRANSLITERATED_ENGLISH\<rparr>)
      else if toUpperCase trimmed = ''[TRAN-AR]'' then Inr (s\<lparr>currentLang := Some TRANSLITERATED_ARABIC\<rparr>)
      else (case currentLang s of
              None \<Rightarrow> Inr s
            | Some l \<Rightarrow> (case currentPart s of None \<Rightarrow> Inr s | Some p \<Rightarrow> contentLine s l p trimmed)))"

text \<open>\<open>lines.forEach\<close>: an exception thrown at one line ends the loop and the call.\<close>

fun forEach :: "parser_state \<Rightarrow> string list \<Rightarrow> error + parser_state" where
  "forEach s [] = Inr s"
| "forEach s (line # rest) = andThen (step s line) (\<lambda>s'. forEach s' rest)"

definition parseTextToLibrary :: "string \<Rightarrow> error + LibraryItem list" where
  "parseTextToLibrary text =
     (if trim text = [] then Inr []
      else andThen (forEach initialState (split (CHR 0x0A) text)) (\<lambda>s. Inr (resolveLibrary s)))"

section \<open>The path without exceptions\<close>

text \<open>
  What each branch of \<open>step\<close> returns when nothing throws, written as a function from
  state to state. The lemmas of this section show that \<open>step\<close> always returns exactly
  this state (\<open>step_eq\<close>), so the proofs below can work with \<open>nextState\<close>.
\<close>

fun arrayOf :: "'a list option \<Rightarrow> 'a list" where
  "arrayOf None = []"
| "arrayOf (Some xs) = xs"

definition paragraphs :: "parser_state \<Rightarrow> nat \<Rightarrow> Language \<Rightarrow> string list" where
  "paragraphs s p l = arrayOf (map_of (content (partStore s p)) l)"

definition openSection :: "parser_state \<Rightarrow> string \<Rightarrow> parser_state" where
  "openSection s trimmed =
     (let title = trim (replaceFirst ''###'' [] trimmed);
          bookTitle = (case currentBook s of None \<Rightarrow> [] | Some b \<Rightarrow> bo_title (bookStore s b));
          a = nextSection s;
          s1 = s\<lparr>sectionStore := (sectionStore s)
                   (a := \<lparr>so_id = ''sec-'' @ slugify bookTitle @ ''-'' @ slugify title,
                          so_title = title, so_parts = []\<rparr>),
                 nextSection := Suc a,
                 currentSection := Some a\<rparr>;
          s2 = (case currentBook s of
                  None \<Rightarrow> s1
                | Some b \<Rightarrow>
                    s1\<lparr>bookStore := (bookStore s)
                      (b := (bookStore s b)\<lparr>bo_sections := Some (arrayOf (bo_sections (bookStore s b)) @ [a])\<rparr>)\<rparr>)
      in (createNewPart (s2\<lparr>partCount := 0\<rparr>))\<lparr>currentLang := None\<rparr>)"

definition openBook :: "parser_state \<Rightarrow> string \<Rightarrow> parser_state" where
  "openBook s trimmed =
     (let title = trim (replaceFirst ''##'' [] trimmed);
          catTitle = (case currentCat s of None \<Rightarrow> [] | Some c \<Rightarrow> co_title (categoryStore s c));
          b = nextBook s;
          s1 = s\<lparr>bookStore := (bookStore s)
                   (b := \<lparr>bo_id = ''book-'' @ slugify catTitle @ ''-'' @ slugify title,
                          bo_title = title, bo_sections = Some []\<rparr>),
                 nextBook := Suc b,
                 currentBook := Some b,
                 currentSection := None, currentPart := None\<rparr>
      in case currentCat s of
           None \<Rightarrow> s1
         | Some c \<Rightarrow>
             s1\<lparr>categoryStore := (categoryStore s)
               (c := (categoryStore s c)\<lparr>co_children := Some (arrayOf (co_children (categoryStore s c)) @ [b])\<rparr>)\<rparr>)"

definition openCategory :: "parser_state \<Rightarrow> string \<Rightarrow> parser_state" where
  "openCategory s trimmed =
     (let title = trim (replaceFirst ''#'' [] trimmed);
          c = nextCategory s
      in s\<lparr>categoryStore := (categoryStore s)
                   (c := \<lparr>co_id = ''cat-'' @ slugify title, co_title = title, co_children = Some []\<rparr>),
                nextCategory := Suc c,
                library := library s @ [c],
                currentCat := Some c, currentBook := None,
                currentSection := None, currentPart := None\<rparr>)"

definition appendParagraph :: "parser_state \<Rightarrow> Language \<Rightarrow> nat \<Rightarrow> string \<Rightarrow> parser_state" where
  "appendParagraph s l p trimmed =
     s\<lparr>partStore := (partStore s)
        (p := (partStore s p)
           \<lparr>content := setContent l (paragraphs s p l @ (if trimmed = [] then [] else [trimmed]))
                          (content (partStore s p))\<rparr>)\<rparr>"

definition isLanguageTag :: "string \<Rightarrow> bool" where
  "isLanguageTag trimmed =
     (toUpperCase trimmed \<in> set [''[EN]'', ''[COP]'', ''[AR]'', ''[TRAN-EN]'', ''[TRAN-AR]''])"

definition languageOfTag :: "string \<Rightarrow> Language" where
  "languageOfTag trimmed =
     (if toUpperCase trimmed = ''[EN]'' then ENGLISH
      else if toUpperCase trimmed = ''[COP]'' then COPTIC
      else if toUpperCase trimmed = ''[AR]'' then ARABIC
      else if toUpperCase trimmed = ''[TRAN-EN]'' then TRANSLITERATED_ENGLISH
      else TRANSLITERATED_ARABIC)"

definition nextState :: "parser_state \<Rightarrow> string \<Rightarrow> parser_state" where
  "nextState s line =
     (let trimmed = trim line in
      if trimmed = [] \<and> currentLang s = None then s
      else if startsWith trimmed ''###'' then openSection s trimmed
      else if startsWith trimmed ''##'' then openBook s trimmed
      else if startsWith trimmed ''#'' then openCategory s trimmed
      else if trimmed = ''---'' then (createNewPart s)\<lparr>currentLang := None\<rparr>
      else if isLanguageTag trimmed then s\<lparr>currentLang := Some (languageOfTag trimmed)\<rparr>
      else (case currentLang s of
              None \<Rightarrow> s
            | Some l \<Rightarrow> (case currentPart s of None \<Rightarrow> s | Some p \<Rightarrow> appendParagraph s l p trimmed)))"

lemma push_Some [simp]: "push (Some xs) x = Inr (xs @ [x])"
  by (simp add: push_def)

lemma andThen_Inr [simp]: "andThen (Inr x) f = f x"
  by (simp add: andThen_def)

lemma orElse_empty [simp]: "orElse a [] = a"
  by (simp add: orElse_def)

lemma sectionHeading_orphan:
  "currentBook s = None \<Longrightarrow> sectionHeading s t = Inr (openSection s t)"
  by (simp add: sectionHeading_def openSection_def Let_def)

lemma sectionHeading_undefined:
  "currentBook s = Some b \<Longrightarrow> bo_sections (bookStore s b) = None \<Longrightarrow>
   sectionHeading s t = Inr (openSection s t)"
  by (simp add: sectionHeading_def openSection_def Let_def)

lemma sectionHeading_array:
  "currentBook s = Some b \<Longrightarrow> bo_sections (bookStore s b) = Some ss \<Longrightarrow>
   sectionHeading s t = Inr (openSection s t)"
  by (simp add: sectionHeading_def openSection_def Let_def)

lemma sectionHeading_eq: "sectionHeading s t = Inr (openSection s t)"
proof (cases "currentBook s")
  case None
  then show ?thesis by (rule sectionHeading_orphan)
next
  case (Some b)
  show ?thesis
  proof (cases "bo_sections (bookStore s b)")
    case None
    with Some show ?thesis by (rule sectionHeading_undefined)
  next
    case (Some ss)
    with \<open>currentBook s = Some b\<close> show ?thesis by (rule sectionHeading_array)
  qed
qed

lemma bookHeading_orphan:
  "currentCat s = None \<Longrightarrow> bookHeading s t = Inr (openBook s t)"
  by (simp add: bookHeading_def openBook_def Let_def)

lemma bookHeading_undefined:
  "currentCat s = Some c \<Longrightarrow> co_children (categoryStore s c) = None \<Longrightarrow>
   bookHeading s t = Inr (openBook s t)"
  by (simp add: bookHeading_def openBook_def Let_def)

lemma bookHeading_array:
  "currentCat s = Some c \<Longrightarrow> co_children (categoryStore s c) = Some bs \<Longrightarrow>
   bookHeading s t = Inr (openBook s t)"
  by (simp add: bookHeading_def openBook_def Let_def)

lemma bookHeading_eq: "bookHeading s t = Inr (openBook s t)"
proof (cases "currentCat s")
  case None
  then show ?thesis by (rule bookHeading_orphan)
next
  case (Some c)
  show ?thesis
  proof (cases "co_children (categoryStore s c)")
    case None
    with Some show ?thesis by (rule bookHeading_undefined)
  next
    case (Some bs)
    with \<open>currentCat s = Some c\<close> show ?thesis by (rule bookHeading_array)
  qed
qed

lemma categoryHeading_eq: "categoryHeading s t = Inr (openCategory s t)"
  by (simp add: categoryHeading_def openCategory_def Let_def)

lemma map_of_setContent [simp]: "map_of (setContent l ps c) l = Some ps"
  by (induction c) auto

lemma map_of_setContent_other: "k \<noteq> l \<Longrightarrow> map_of (setContent l ps c) k = map_of c k"
  by (induction c) auto

lemma setContent_twice [simp]: "setContent l ps (setContent l qs c) = setContent l ps c"
  by (induction c) auto

lemma contentLine_absent:
  "map_of (content (partStore s p)) l = None \<Longrightarrow> contentLine s l p t = Inr (appendParagraph s l p t)"
  by (simp add: contentLine_def appendParagraph_def paragraphs_def Let_def)

lemma setContent_same: "map_of c l = Some ps \<Longrightarrow> setContent l ps c = c"
  by (induction c) (auto split: if_splits)

lemma contentLine_present:
  "map_of (content (partStore s p)) l = Some ps \<Longrightarrow> contentLine s l p t = Inr (appendParagraph s l p t)"
  by (simp add: contentLine_def appendParagraph_def paragraphs_def Let_def setContent_same)

lemma contentLine_eq: "contentLine s l p t = Inr (appendParagraph s l p t)"
  by (cases "map_of (content (partStore s p)) l") (simp_all add: contentLine_absent contentLine_present)

lemma step_eq: "step s line = Inr (nextState s line)"
  by (simp add: step_def nextState_def Let_def sectionHeading_eq bookHeading_eq categoryHeading_eq
      contentLine_eq isLanguageTag_def languageOfTag_def split: option.split)

lemma forEach_eq: "forEach s ls = Inr (foldl nextState s ls)"
  by (induction ls arbitrary: s) (simp_all add: step_eq)

lemma parseTextToLibrary_eq:
  "parseTextToLibrary text =
     Inr (if trim text = [] then []
          else resolveLibrary (foldl nextState initialState (split (CHR 0x0A) text)))"
  by (simp add: parseTextToLibrary_def forEach_eq)

section \<open>Totality\<close>

text \<open>
  C2: parseTextToLibrary returns a Library for every input string; no line makes it throw
  (the only operation of the parser that can throw, a push on an optional array, always
  finds the array).
\<close>

theorem parseTextToLibrary_total: "\<exists>lib. parseTextToLibrary text = Inr lib"
  by (simp add: parseTextToLibrary_eq)

section \<open>Examples of the specification\<close>

text \<open>
  C4: the minimal tree. One Category "Cat", one Book "Book", one Section "Sec", one Part
  whose English paragraphs are "Hello" and "World".
\<close>

theorem parse_minimal_tree:
  "parseTextToLibrary ''# Cat\<newline>## Book\<newline>### Sec\<newline>[EN]\<newline>Hello\<newline>World'' =
     Inr [LibraryItem ''cat-cat'' ''Cat'' Category
            (Some [LibraryItem ''book-cat-book'' ''Book'' Book None
               (Some [\<lparr>sec_id = ''sec-book-sec'', sec_title = ''Sec'',
                        parts = [\<lparr>part_id = ''part-sec-book-sec-1'', part_type = Prayer,
                                   content = [(ENGLISH, [''Hello'', ''World''])]\<rparr>]\<rparr>])])
            None]"
  by code_simp

text \<open>
  C9: a blank line read while a language is active and a Part is current creates the
  language's paragraph array and appends nothing to it: the Part of the input below maps
  English to the empty list.
\<close>

theorem blank_line_creates_empty_language:
  "parseTextToLibrary ''# C\<newline>## B\<newline>### S\<newline>[EN]\<newline>'' =
     Inr [LibraryItem ''cat-c'' ''C'' Category
            (Some [LibraryItem ''book-c-b'' ''B'' Book None
               (Some [\<lparr>sec_id = ''sec-b-s'', sec_title = ''S'',
                        parts = [\<lparr>part_id = ''part-sec-b-s-1'', part_type = Prayer,
                                   content = [(ENGLISH, [])]\<rparr>]\<rparr>])])
            None]"
  by code_simp

section \<open>The line grammar\<close>

text \<open>A line of a language block: not a heading, not the delimiter, not a language tag.\<close>

definition isContentLine :: "string \<Rightarrow> bool" where
  "isContentLine line =
     (\<not> startsWith (trim line) ''#'' \<and> trim line \<noteq> ''---'' \<and> \<not> isLanguageTag (trim line))"

lemma startsWith_hash2: "startsWith t ''##'' \<Longrightarrow> startsWith t ''#''"
  by (cases t) (auto simp: startsWith_def)

lemma startsWith_hash3: "startsWith t ''###'' \<Longrightarrow> startsWith t ''##''"
  by (cases t; cases "tl t") (auto simp: startsWith_def)

lemma startsWith_nonempty: "startsWith t (c # p) \<Longrightarrow> t \<noteq> []"
  by (auto simp: startsWith_def)

lemma replaceFirst_prefix: "startsWith t p \<Longrightarrow> replaceFirst p [] t = drop (length p) t"
  by (cases t) (auto simp: startsWith_def)

lemma nextState_section:
  "startsWith (trim line) ''###'' \<Longrightarrow> nextState s line = openSection s (trim line)"
  by (auto simp: nextState_def Let_def dest: startsWith_nonempty)

lemma nextState_content:
  assumes "isContentLine line" "currentLang s = Some l" "currentPart s = Some p"
  shows "nextState s line = appendParagraph s l p (trim line)"
  using assms startsWith_hash2 [of "trim line"] startsWith_hash3 [of "trim line"]
  by (auto simp: nextState_def isContentLine_def Let_def)

lemma createNewPart_sectionTitle:
  "so_title (sectionStore (createNewPart s) a) = so_title (sectionStore s a)"
  by (simp add: createNewPart_def Let_def split: option.split)

lemma createNewPart_currentSection [simp]:
  "currentSection (createNewPart s) = currentSection s"
  by (simp add: createNewPart_def Let_def split: option.split)

lemma createNewPart_bookStore [simp]:
  "bookStore (createNewPart s) = bookStore s"
  by (simp add: createNewPart_def Let_def split: option.split)

lemma openSection_title:
  "so_title (sectionStore (openSection s t) (nextSection s)) = trim (replaceFirst ''###'' [] t)"
  by (simp add: openSection_def Let_def createNewPart_sectionTitle split: option.split)

lemma openSection_currentSection:
  "currentSection (openSection s t) = Some (nextSection s)"
  by (simp add: openSection_def Let_def split: option.split)

lemma openSection_attached:
  "currentBook s = Some b \<Longrightarrow>
   bo_sections (bookStore (openSection s t) b) = Some (arrayOf (bo_sections (bookStore s b)) @ [nextSection s])"
  by (simp add: openSection_def Let_def)

text \<open>
  C10: heading markers are matched by prefix on the trimmed line. Every line whose trimmed
  text starts with "###" is handled as a Section heading (whatever follows the three
  characters, more "#" included, and whatever white space precedes them): the new Section
  becomes the current one, its title is the trimmed text without its first three
  characters, trimmed again, and it is pushed to the current Book if there is one.
\<close>

theorem section_heading_by_prefix:
  assumes "startsWith (trim line) ''###''"
  shows "step s line = sectionHeading s (trim line) \<and>
         (\<exists>s'. step s line = Inr s' \<and>
            currentSection s' = Some (nextSection s) \<and>
            so_title (sectionStore s' (nextSection s)) = trim (drop 3 (trim line)) \<and>
            (\<forall>b. currentBook s = Some b \<longrightarrow>
               bo_sections (bookStore s' b) =
                 Some (arrayOf (bo_sections (bookStore s b)) @ [nextSection s])))"
proof -
  have "step s line = Inr (openSection s (trim line))"
    using assms by (simp add: step_eq nextState_section)
  moreover have "replaceFirst ''###'' [] (trim line) = drop 3 (trim line)"
    using replaceFirst_prefix [OF assms] by (simp add: numeral_3_eq_3)
  ultimately show ?thesis
    by (simp add: sectionHeading_eq openSection_title openSection_currentSection openSection_attached)
qed

theorem section_heading_by_prefix_witness:
  "startsWith (trim ''  #### Deep'') ''###'' \<and>
   (\<exists>s'. step (initialState\<lparr>currentBook := Some 0\<rparr>) ''  #### Deep'' = Inr s' \<and>
      currentSection s' = Some 0 \<and> so_title (sectionStore s' 0) = ''# Deep'' \<and>
      bo_sections (bookStore s' 0) = Some [0])"
proof -
  let ?s = "initialState\<lparr>currentBook := Some 0\<rparr>"
  have h: "startsWith (trim ''  #### Deep'') ''###''" by code_simp
  have t: "trim (drop 3 (trim ''  #### Deep'')) = ''# Deep''" by code_simp
  from section_heading_by_prefix [OF h, of ?s, THEN conjunct2]
  obtain s' where "step ?s ''  #### Deep'' = Inr s'" "currentSection s' = Some 0"
    "so_title (sectionStore s' 0) = ''# Deep''" "bo_sections (bookStore s' 0) = Some [0]"
    by (auto simp: t initialState_def)
  with h show ?thesis by blast
qed

lemma paragraphs_appendParagraph:
  "paragraphs (appendParagraph s l p t) p l = paragraphs s p l @ (if t = [] then [] else [t])"
  by (simp add: appendParagraph_def paragraphs_def)

lemma appendParagraph_cursors [simp]:
  "currentLang (appendParagraph s l p t) = currentLang s"
  "currentPart (appendParagraph s l p t) = currentPart s"
  by (simp_all add: appendParagraph_def)

lemma forEach_content_lines:
  assumes "currentLang s = Some l" and "currentPart s = Some p"
    and "\<forall>line\<in>set ls. isContentLine line"
  shows "\<exists>s'. forEach s ls = Inr s' \<and>
           paragraphs s' p l = paragraphs s p l @ filter (\<lambda>t. t \<noteq> []) (map trim ls) \<and>
           currentLang s' = Some l \<and> currentPart s' = Some p"
  using assms
proof (induction ls arbitrary: s)
  case Nil
  then show ?case by simp
next
  case (Cons line ls)
  let ?s1 = "appendParagraph s l p (trim line)"
  have st: "step s line = Inr ?s1"
    using Cons.prems by (simp add: step_eq nextState_content)
  have "\<exists>s'. forEach ?s1 ls = Inr s' \<and>
           paragraphs s' p l = paragraphs ?s1 p l @ filter (\<lambda>t. t \<noteq> []) (map trim ls) \<and>
           currentLang s' = Some l \<and> currentPart s' = Some p"
    using Cons.prems by (intro Cons.IH) simp_all
  then show ?case
    using st by (auto simp: paragraphs_appendParagraph)
qed

text \<open>
  C6: with an active language and a current Part, the lines of a language block are
  appended to the Part's paragraph list of that language, trimmed and in order, and the
  blank ones are left out.
\<close>

theorem language_block_paragraphs:
  assumes "currentLang s = Some l" and "currentPart s = Some p"
    and "\<forall>line\<in>set ls. isContentLine line"
  shows "\<exists>s'. forEach s ls = Inr s' \<and>
           paragraphs s' p l = paragraphs s p l @ filter (\<lambda>t. t \<noteq> []) (map trim ls) \<and>
           currentLang s' = Some l \<and> currentPart s' = Some p"
  using assms by (rule forEach_content_lines)

theorem language_block_paragraphs_witness:
  "\<exists>s'. forEach (foldl nextState initialState [''# C'', ''## B'', ''### S'', ''[EN]''])
           [''Line1'', '''', ''Line2''] = Inr s' \<and>
         paragraphs s' 0 ENGLISH = [''Line1'', ''Line2'']"
proof -
  let ?s = "foldl nextState initialState [''# C'', ''## B'', ''### S'', ''[EN]'']"
  have a: "currentLang ?s = Some ENGLISH" by code_simp
  have b: "currentPart ?s = Some 0" by code_simp
  have c: "\<forall>line\<in>set [''Line1'', '''', ''Line2'']. isContentLine line" by code_simp
  have d: "paragraphs ?s 0 ENGLISH = []" by code_simp
  have e: "filter (\<lambda>t. t \<noteq> []) (map trim [''Line1'', '''', ''Line2'']) = [''Line1'', ''Line2'']"
    by code_simp
  show ?thesis
    using language_block_paragraphs [OF a b c] by (simp only: d e append_Nil) blast
qed

section \<open>Invariants of the store\<close>

text \<open>
  What holds of every state the parser reaches: an array holds every address once, and only
  addresses already handed out; the object a cursor points to sits in the array of the
  parent cursor's object only, at its end; every Section has a Part; and a Section in a
  Book's array carries the identifier built from that Book's title.
\<close>

definition partsOf :: "parser_state \<Rightarrow> nat \<Rightarrow> nat list" where
  "partsOf s a = so_parts (sectionStore s a)"

definition sectionsOf :: "parser_state \<Rightarrow> nat \<Rightarrow> nat list" where
  "sectionsOf s b = arrayOf (bo_sections (bookStore s b))"

definition booksOf :: "parser_state \<Rightarrow> nat \<Rightarrow> nat list" where
  "booksOf s c = arrayOf (co_children (categoryStore s c))"

definition partsOwned :: "parser_state \<Rightarrow> bool" where
  "partsOwned s =
     (\<forall>a. distinct (partsOf s a) \<and>
          (\<forall>p\<in>set (partsOf s a). p < nextPart s \<and> (currentPart s = Some p \<longrightarrow> currentSection s = Some a)))"

definition sectionsOwned :: "parser_state \<Rightarrow> bool" where
  "sectionsOwned s =
     (\<forall>b. distinct (sectionsOf s b) \<and>
          (\<forall>a\<in>set (sectionsOf s b). a < nextSection s \<and> (currentSection s = Some a \<longrightarrow> currentBook s = Some b)))"

definition booksOwned :: "parser_state \<Rightarrow> bool" where
  "booksOwned s =
     (\<forall>c. distinct (booksOf s c) \<and>
          (\<forall>b\<in>set (booksOf s c). b < nextBook s \<and> (currentBook s = Some b \<longrightarrow> currentCat s = Some c)))"

definition categoriesOwned :: "parser_state \<Rightarrow> bool" where
  "categoriesOwned s =
     (distinct (library s) \<and> (\<forall>c\<in>set (library s). c < nextCategory s))"

definition cursorsLinked :: "parser_state \<Rightarrow> bool" where
  "cursorsLinked s =
     ((\<forall>c. currentCat s = Some c \<longrightarrow> c < nextCategory s \<and> library s \<noteq> [] \<and> last (library s) = c) \<and>
      (\<forall>b. currentBook s = Some b \<longrightarrow> b < nextBook s \<and>
           (\<forall>c. currentCat s = Some c \<longrightarrow> booksOf s c \<noteq> [] \<and> last (booksOf s c) = b)) \<and>
      (\<forall>a. currentSection s = Some a \<longrightarrow> a < nextSection s \<and>
           (\<forall>b. currentBook s = Some b \<longrightarrow> sectionsOf s b \<noteq> [] \<and> last (sectionsOf s b) = a)) \<and>
      (\<forall>p. currentPart s = Some p \<longrightarrow> p < nextPart s \<and>
           (\<forall>a. currentSection s = Some a \<longrightarrow> partsOf s a \<noteq> [] \<and> last (partsOf s a) = p)))"

definition sectionsPopulated :: "parser_state \<Rightarrow> bool" where
  "sectionsPopulated s = (\<forall>a<nextSection s. partsOf s a \<noteq> [])"

definition sectionIdsNamespaced :: "parser_state \<Rightarrow> bool" where
  "sectionIdsNamespaced s =
     (\<forall>b. \<forall>a\<in>set (sectionsOf s b).
        so_id (sectionStore s a) =
          ''sec-'' @ slugify (bo_title (bookStore s b)) @ ''-'' @ slugify (so_title (sectionStore s a)))"

definition wellFormed :: "parser_state \<Rightarrow> bool" where
  "wellFormed s =
     (partsOwned s \<and> sectionsOwned s \<and> booksOwned s \<and> categoriesOwned s \<and> cursorsLinked s \<and>
      sectionsPopulated s \<and> sectionIdsNamespaced s)"

lemmas invariant_defs =
  partsOwned_def sectionsOwned_def booksOwned_def categoriesOwned_def cursorsLinked_def
  sectionsPopulated_def sectionIdsNamespaced_def partsOf_def sectionsOf_def booksOf_def

lemma wellFormed_initialState: "wellFormed initialState"
  by (simp add: wellFormed_def invariant_defs initialState_def)

subsection \<open>createNewPart\<close>

lemma createNewPart_fields [simp]:
  "library (createNewPart s) = library s"
  "categoryStore (createNewPart s) = categoryStore s"
  "bookStore (createNewPart s) = bookStore s"
  "nextCategory (createNewPart s) = nextCategory s"
  "nextBook (createNewPart s) = nextBook s"
  "nextSection (createNewPart s) = nextSection s"
  "nextPart (createNewPart s) = Suc (nextPart s)"
  "currentCat (createNewPart s) = currentCat s"
  "currentBook (createNewPart s) = currentBook s"
  "currentSection (createNewPart s) = currentSection s"
  "currentPart (createNewPart s) = Some (nextPart s)"
  "currentLang (createNewPart s) = currentLang s"
  "partCount (createNewPart s) = Suc (partCount s)"
  by (simp_all add: createNewPart_def Let_def split: option.split)

lemma createNewPart_sectionStore:
  "sectionStore (createNewPart s) =
     (case currentSection s of
        None \<Rightarrow> sectionStore s
      | Some a \<Rightarrow> (sectionStore s)(a := (sectionStore s a)\<lparr>so_parts := so_parts (sectionStore s a) @ [nextPart s]\<rparr>))"
  by (simp add: createNewPart_def Let_def split: option.split)

lemma createNewPart_partStore:
  "partStore (createNewPart s) =
     (partStore s)(nextPart s :=
        \<lparr>part_id = ''part-'' @ (case currentSection s of None \<Rightarrow> ''root''
                                | Some a \<Rightarrow> orElse (so_id (sectionStore s a)) ''root'')
                   @ ''-'' @ numberToString (Suc (partCount s)),
         part_type = Prayer, content = []\<rparr>)"
  by (simp add: createNewPart_def Let_def split: option.split)

lemma partsOf_createNewPart:
  "partsOf (createNewPart s) a =
     (if currentSection s = Some a then partsOf s a @ [nextPart s] else partsOf s a)"
  by (cases "currentSection s") (simp_all add: partsOf_def createNewPart_sectionStore)

lemma partsOwned_bound: "partsOwned s \<Longrightarrow> p \<in> set (partsOf s a) \<Longrightarrow> p < nextPart s"
  by (simp add: partsOwned_def)

lemma partsOwned_createNewPart:
  assumes "partsOwned s"
  shows "partsOwned (createNewPart s)"
proof -
  have fresh: "nextPart s \<notin> set (partsOf s a)" for a
    using partsOwned_bound [OF assms, of "nextPart s" a] by auto
  have old: "distinct (partsOf s a)" "\<forall>p\<in>set (partsOf s a). p < nextPart s" for a
    using assms by (simp_all add: partsOwned_def)
  show ?thesis
    unfolding partsOwned_def
    using fresh old by (auto simp: partsOf_createNewPart less_Suc_eq)
qed

lemma sectionsOwned_createNewPart:
  "sectionsOwned s \<Longrightarrow> sectionsOwned (createNewPart s)"
  by (simp add: sectionsOwned_def sectionsOf_def)

lemma booksOwned_createNewPart:
  "booksOwned s \<Longrightarrow> booksOwned (createNewPart s)"
  by (simp add: booksOwned_def booksOf_def)

lemma categoriesOwned_createNewPart:
  "categoriesOwned s \<Longrightarrow> categoriesOwned (createNewPart s)"
  by (simp add: categoriesOwned_def)

lemma cursorsLinked_createNewPart:
  "cursorsLinked s \<Longrightarrow> cursorsLinked (createNewPart s)"
  unfolding cursorsLinked_def partsOf_def sectionsOf_def booksOf_def
  by (cases "currentSection s") (simp_all add: createNewPart_sectionStore)

lemma sectionsPopulated_createNewPart:
  "sectionsPopulated s \<Longrightarrow> sectionsPopulated (createNewPart s)"
  unfolding sectionsPopulated_def partsOf_def
  by (cases "currentSection s") (simp_all add: createNewPart_sectionStore)

lemma sectionIdsNamespaced_createNewPart:
  "sectionIdsNamespaced s \<Longrightarrow> sectionIdsNamespaced (createNewPart s)"
  unfolding sectionIdsNamespaced_def sectionsOf_def
  by (cases "currentSection s") (simp_all add: createNewPart_sectionStore)

lemma wellFormed_createNewPart: "wellFormed s \<Longrightarrow> wellFormed (createNewPart s)"
  by (simp add: wellFormed_def partsOwned_createNewPart sectionsOwned_createNewPart
      booksOwned_createNewPart categoriesOwned_createNewPart cursorsLinked_createNewPart
      sectionsPopulated_createNewPart sectionIdsNamespaced_createNewPart)

lemma wellFormed_currentLang: "wellFormed (s\<lparr>currentLang := l\<rparr>) = wellFormed s"
  by (simp add: wellFormed_def invariant_defs)

lemma wellFormed_partCount: "wellFormed (s\<lparr>partCount := n\<rparr>) = wellFormed s"
  by (simp add: wellFormed_def invariant_defs)

lemma wellFormed_appendParagraph: "wellFormed s \<Longrightarrow> wellFormed (appendParagraph s l p t)"
  by (simp add: wellFormed_def invariant_defs appendParagraph_def)


subsection \<open>openSection\<close>

lemma openSection_fields [simp]:
  "library (openSection s t) = library s"
  "categoryStore (openSection s t) = categoryStore s"
  "nextCategory (openSection s t) = nextCategory s"
  "nextBook (openSection s t) = nextBook s"
  "nextSection (openSection s t) = Suc (nextSection s)"
  "nextPart (openSection s t) = Suc (nextPart s)"
  "currentCat (openSection s t) = currentCat s"
  "currentBook (openSection s t) = currentBook s"
  "currentSection (openSection s t) = Some (nextSection s)"
  "currentPart (openSection s t) = Some (nextPart s)"
  "currentLang (openSection s t) = None"
  "partCount (openSection s t) = 1"
  by (simp_all add: openSection_def Let_def split: option.split)

lemma openSection_sectionStore:
  "sectionStore (openSection s t) =
     (sectionStore s)(nextSection s :=
        \<lparr>so_id = ''sec-'' @ slugify (case currentBook s of None \<Rightarrow> [] | Some b \<Rightarrow> bo_title (bookStore s b))
                 @ ''-'' @ slugify (trim (replaceFirst ''###'' [] t)),
         so_title = trim (replaceFirst ''###'' [] t), so_parts = [nextPart s]\<rparr>)"
  by (simp add: openSection_def Let_def createNewPart_sectionStore split: option.split)

lemma openSection_bookStore:
  "bookStore (openSection s t) =
     (case currentBook s of
        None \<Rightarrow> bookStore s
      | Some b \<Rightarrow> (bookStore s)(b := (bookStore s b)\<lparr>bo_sections := Some (sectionsOf s b @ [nextSection s])\<rparr>))"
  by (simp add: openSection_def Let_def sectionsOf_def split: option.split)

lemma openSection_partStore:
  "partStore (openSection s t) =
     (partStore s)(nextPart s :=
        \<lparr>part_id = ''part-'' @ orElse (so_id (sectionStore (openSection s t) (nextSection s))) ''root''
                   @ ''-'' @ numberToString 1,
         part_type = Prayer, content = []\<rparr>)"
  by (simp add: openSection_def Let_def createNewPart_partStore createNewPart_sectionStore
      split: option.split)

lemma partsOf_openSection:
  "partsOf (openSection s t) a = (if a = nextSection s then [nextPart s] else partsOf s a)"
  by (simp add: partsOf_def openSection_sectionStore)

lemma sectionsOf_openSection:
  "sectionsOf (openSection s t) b =
     (if currentBook s = Some b then sectionsOf s b @ [nextSection s] else sectionsOf s b)"
  by (cases "currentBook s") (simp_all add: sectionsOf_def openSection_bookStore)

lemma booksOf_openSection [simp]: "booksOf (openSection s t) c = booksOf s c"
  by (simp add: booksOf_def)

lemma bo_title_openSection [simp]:
  "bo_title (bookStore (openSection s t) b) = bo_title (bookStore s b)"
  by (cases "currentBook s") (simp_all add: openSection_bookStore)

lemma sectionsOwned_bound:
  "sectionsOwned s \<Longrightarrow> a \<in> set (sectionsOf s b) \<Longrightarrow> a < nextSection s"
  by (simp add: sectionsOwned_def)

lemma booksOwned_bound:
  "booksOwned s \<Longrightarrow> b \<in> set (booksOf s c) \<Longrightarrow> b < nextBook s"
  by (simp add: booksOwned_def)

lemma partsOwned_openSection:
  assumes "partsOwned s"
  shows "partsOwned (openSection s t)"
proof -
  have old: "distinct (partsOf s a)" "\<forall>p\<in>set (partsOf s a). p < nextPart s" for a
    using assms by (simp_all add: partsOwned_def)
  show ?thesis
    unfolding partsOwned_def
    using old by (auto simp: partsOf_openSection less_Suc_eq)
qed

lemma sectionsOwned_openSection:
  assumes "sectionsOwned s"
  shows "sectionsOwned (openSection s t)"
proof -
  have old: "distinct (sectionsOf s b)" "\<forall>a\<in>set (sectionsOf s b). a < nextSection s" for b
    using assms by (simp_all add: sectionsOwned_def)
  show ?thesis
    unfolding sectionsOwned_def
    using old by (auto simp: sectionsOf_openSection less_Suc_eq)
qed

lemma booksOwned_openSection: "booksOwned s \<Longrightarrow> booksOwned (openSection s t)"
  by (simp add: booksOwned_def)

lemma categoriesOwned_openSection: "categoriesOwned s \<Longrightarrow> categoriesOwned (openSection s t)"
  by (simp add: categoriesOwned_def)

lemma cursorsLinked_openSection: "cursorsLinked s \<Longrightarrow> cursorsLinked (openSection s t)"
  unfolding cursorsLinked_def
  by (simp add: partsOf_openSection sectionsOf_openSection)

lemma sectionsPopulated_openSection: "sectionsPopulated s \<Longrightarrow> sectionsPopulated (openSection s t)"
  unfolding sectionsPopulated_def
  by (simp add: partsOf_openSection less_Suc_eq)

lemma sectionIdsNamespaced_openSection:
  assumes "sectionIdsNamespaced s" and "sectionsOwned s"
  shows "sectionIdsNamespaced (openSection s t)"
proof -
  have fresh: "nextSection s \<notin> set (sectionsOf s b)" for b
    using sectionsOwned_bound [OF assms(2), of "nextSection s" b] by auto
  show ?thesis
    using assms(1) fresh unfolding sectionIdsNamespaced_def
    by (auto simp: sectionsOf_openSection openSection_sectionStore)
qed

lemma wellFormed_openSection: "wellFormed s \<Longrightarrow> wellFormed (openSection s t)"
  by (simp add: wellFormed_def partsOwned_openSection sectionsOwned_openSection
      booksOwned_openSection categoriesOwned_openSection cursorsLinked_openSection
      sectionsPopulated_openSection sectionIdsNamespaced_openSection)

subsection \<open>openBook\<close>

lemma openBook_fields [simp]:
  "library (openBook s t) = library s"
  "sectionStore (openBook s t) = sectionStore s"
  "partStore (openBook s t) = partStore s"
  "nextCategory (openBook s t) = nextCategory s"
  "nextBook (openBook s t) = Suc (nextBook s)"
  "nextSection (openBook s t) = nextSection s"
  "nextPart (openBook s t) = nextPart s"
  "currentCat (openBook s t) = currentCat s"
  "currentBook (openBook s t) = Some (nextBook s)"
  "currentSection (openBook s t) = None"
  "currentPart (openBook s t) = None"
  "currentLang (openBook s t) = currentLang s"
  "partCount (openBook s t) = partCount s"
  by (simp_all add: openBook_def Let_def split: option.split)

lemma openBook_bookStore:
  "bookStore (openBook s t) =
     (bookStore s)(nextBook s :=
        \<lparr>bo_id = ''book-'' @ slugify (case currentCat s of None \<Rightarrow> [] | Some c \<Rightarrow> co_title (categoryStore s c))
                 @ ''-'' @ slugify (trim (replaceFirst ''##'' [] t)),
         bo_title = trim (replaceFirst ''##'' [] t), bo_sections = Some []\<rparr>)"
  by (simp add: openBook_def Let_def split: option.split)

lemma openBook_categoryStore:
  "categoryStore (openBook s t) =
     (case currentCat s of
        None \<Rightarrow> categoryStore s
      | Some c \<Rightarrow> (categoryStore s)(c := (categoryStore s c)\<lparr>co_children := Some (booksOf s c @ [nextBook s])\<rparr>))"
  by (simp add: openBook_def Let_def booksOf_def split: option.split)

lemma partsOf_openBook [simp]: "partsOf (openBook s t) a = partsOf s a"
  by (simp add: partsOf_def)

lemma sectionsOf_openBook:
  "sectionsOf (openBook s t) b = (if b = nextBook s then [] else sectionsOf s b)"
  by (simp add: sectionsOf_def openBook_bookStore)

lemma booksOf_openBook:
  "booksOf (openBook s t) c =
     (if currentCat s = Some c then booksOf s c @ [nextBook s] else booksOf s c)"
  by (cases "currentCat s") (simp_all add: booksOf_def openBook_categoryStore)

lemma partsOwned_openBook: "partsOwned s \<Longrightarrow> partsOwned (openBook s t)"
  by (simp add: partsOwned_def)

lemma sectionsOwned_openBook: "sectionsOwned s \<Longrightarrow> sectionsOwned (openBook s t)"
  by (simp add: sectionsOwned_def sectionsOf_openBook)

lemma booksOwned_openBook:
  assumes "booksOwned s"
  shows "booksOwned (openBook s t)"
proof -
  have old: "distinct (booksOf s c)" "\<forall>b\<in>set (booksOf s c). b < nextBook s" for c
    using assms by (simp_all add: booksOwned_def)
  show ?thesis
    unfolding booksOwned_def
    using old by (auto simp: booksOf_openBook less_Suc_eq)
qed

lemma categoriesOwned_openBook: "categoriesOwned s \<Longrightarrow> categoriesOwned (openBook s t)"
  by (simp add: categoriesOwned_def)

lemma cursorsLinked_openBook: "cursorsLinked s \<Longrightarrow> cursorsLinked (openBook s t)"
  unfolding cursorsLinked_def
  by (simp add: booksOf_openBook)

lemma sectionsPopulated_openBook: "sectionsPopulated s \<Longrightarrow> sectionsPopulated (openBook s t)"
  by (simp add: sectionsPopulated_def)

lemma sectionIdsNamespaced_openBook:
  "sectionIdsNamespaced s \<Longrightarrow> sectionIdsNamespaced (openBook s t)"
  unfolding sectionIdsNamespaced_def
  by (simp add: sectionsOf_openBook openBook_bookStore)

lemma wellFormed_openBook: "wellFormed s \<Longrightarrow> wellFormed (openBook s t)"
  by (simp add: wellFormed_def partsOwned_openBook sectionsOwned_openBook
      booksOwned_openBook categoriesOwned_openBook cursorsLinked_openBook
      sectionsPopulated_openBook sectionIdsNamespaced_openBook)

subsection \<open>openCategory\<close>

lemma openCategory_fields [simp]:
  "library (openCategory s t) = library s @ [nextCategory s]"
  "bookStore (openCategory s t) = bookStore s"
  "sectionStore (openCategory s t) = sectionStore s"
  "partStore (openCategory s t) = partStore s"
  "nextCategory (openCategory s t) = Suc (nextCategory s)"
  "nextBook (openCategory s t) = nextBook s"
  "nextSection (openCategory s t) = nextSection s"
  "nextPart (openCategory s t) = nextPart s"
  "currentCat (openCategory s t) = Some (nextCategory s)"
  "currentBook (openCategory s t) = None"
  "currentSection (openCategory s t) = None"
  "currentPart (openCategory s t) = None"
  "currentLang (openCategory s t) = currentLang s"
  "partCount (openCategory s t) = partCount s"
  by (simp_all add: openCategory_def Let_def)

lemma openCategory_categoryStore:
  "categoryStore (openCategory s t) =
     (categoryStore s)(nextCategory s :=
        \<lparr>co_id = ''cat-'' @ slugify (trim (replaceFirst ''#'' [] t)),
         co_title = trim (replaceFirst ''#'' [] t), co_children = Some []\<rparr>)"
  by (simp add: openCategory_def Let_def)

lemma booksOf_openCategory:
  "booksOf (openCategory s t) c = (if c = nextCategory s then [] else booksOf s c)"
  by (simp add: booksOf_def openCategory_categoryStore)

lemma wellFormed_openCategory: "wellFormed s \<Longrightarrow> wellFormed (openCategory s t)"
  unfolding wellFormed_def partsOwned_def sectionsOwned_def booksOwned_def categoriesOwned_def
    cursorsLinked_def sectionsPopulated_def sectionIdsNamespaced_def
  by (auto simp: booksOf_openCategory partsOf_def sectionsOf_def less_Suc_eq)

subsection \<open>Every state the parser reaches\<close>

lemma wellFormed_nextState: "wellFormed s \<Longrightarrow> wellFormed (nextState s line)"
  by (simp add: nextState_def Let_def wellFormed_openSection wellFormed_openBook
      wellFormed_openCategory wellFormed_createNewPart wellFormed_currentLang
      wellFormed_appendParagraph split: option.split)

lemma wellFormed_foldl: "wellFormed s \<Longrightarrow> wellFormed (foldl nextState s ls)"
  by (induction ls arbitrary: s) (simp_all add: wellFormed_nextState)

section \<open>Reading the invariants off the returned tree\<close>

lemma arrayOf_map_option [simp]: "arrayOf (map_option (map f) x) = map f (arrayOf x)"
  by (cases x) simp_all

lemma children_resolveCategory [simp]:
  "arrayOf (children (resolveCategory s c)) = map (resolveBook s) (booksOf s c)"
  by (simp add: resolveCategory_def booksOf_def)

lemma sections_resolveBook [simp]:
  "arrayOf (sections (resolveBook s b)) = map (resolveSection s) (sectionsOf s b)"
  by (simp add: resolveBook_def sectionsOf_def)

lemma parts_resolveSection [simp]:
  "parts (resolveSection s a) = map (partStore s) (partsOf s a)"
  by (simp add: resolveSection_def partsOf_def)

lemma item_title_resolveBook [simp]: "item_title (resolveBook s b) = bo_title (bookStore s b)"
  by (simp add: resolveBook_def)

lemma sec_fields_resolveSection [simp]:
  "sec_id (resolveSection s a) = so_id (sectionStore s a)"
  "sec_title (resolveSection s a) = so_title (sectionStore s a)"
  by (simp_all add: resolveSection_def)

definition finalState :: "string \<Rightarrow> parser_state" where
  "finalState text = foldl nextState initialState (split (CHR 0x0A) text)"

lemma wellFormed_finalState: "wellFormed (finalState text)"
  by (simp add: finalState_def wellFormed_foldl wellFormed_initialState)

lemma parse_cases:
  assumes "parseTextToLibrary text = Inr lib"
  shows "lib = [] \<or> lib = resolveLibrary (finalState text)"
  using assms by (simp add: parseTextToLibrary_eq finalState_def split: if_splits)

lemma in_library_sections:
  assumes "parseTextToLibrary text = Inr lib" and "cat \<in> set lib"
    and "book \<in> set (arrayOf (children cat))" and "sec \<in> set (arrayOf (sections book))"
  obtains b a where "a \<in> set (sectionsOf (finalState text) b)"
    and "book = resolveBook (finalState text) b" and "sec = resolveSection (finalState text) a"
proof -
  from parse_cases [OF assms(1)] assms(2)
  have "cat \<in> set (resolveLibrary (finalState text))" by auto
  then obtain c where "cat = resolveCategory (finalState text) c"
    by (auto simp: resolveLibrary_def)
  with assms(3) obtain b where b: "book = resolveBook (finalState text) b" by auto
  with assms(4) obtain a where "a \<in> set (sectionsOf (finalState text) b)"
    "sec = resolveSection (finalState text) a" by auto
  with b that show thesis by blast
qed

lemma isLanguageTag_not_heading:
  assumes "isLanguageTag t"
  shows "\<not> startsWith t ''#''" and "t \<noteq> ''---''" and "t \<noteq> []"
proof -
  have h: "toUpperChar CHR ''#'' = CHR ''#''" by code_simp
  have d: "\<not> isLanguageTag ''---''" by code_simp
  have e: "\<not> isLanguageTag []" by code_simp
  show "\<not> startsWith t ''#''"
    using assms h by (cases t) (auto simp: startsWith_def isLanguageTag_def toUpperCase_def)
  show "t \<noteq> ''---''" using assms d by auto
  show "t \<noteq> []" using assms e by auto
qed

lemma nextState_tag:
  assumes "isLanguageTag (trim line)"
  shows "nextState s line = s\<lparr>currentLang := Some (languageOfTag (trim line))\<rparr>"
  using assms isLanguageTag_not_heading [OF assms]
    startsWith_hash2 [of "trim line"] startsWith_hash3 [of "trim line"]
  by (auto simp: nextState_def Let_def)

lemma forEach_Cons: "forEach s (line # ls) = forEach (nextState s line) ls"
  by (simp add: step_eq)




section \<open>Section identifiers\<close>

text \<open>
  C5, as the code has it: in every returned Library, the identifier of every Section is
  "sec-", the slug of the title of the Book that holds it, "-", and the slug of its own
  title. So two Sections with the same title, under any two Books of the Library, have the
  same identifier exactly when the slugs of the two Book titles are the same, and different
  identifiers exactly when these slugs differ.
\<close>

theorem section_ids_differ_across_books:
  assumes "parseTextToLibrary text = Inr lib"
    and "cat1 \<in> set lib" and "book1 \<in> set (arrayOf (children cat1))"
    and "sec1 \<in> set (arrayOf (sections book1))"
  shows "sec_id sec1 = ''sec-'' @ slugify (item_title book1) @ ''-'' @ slugify (sec_title sec1) \<and>
         (\<forall>cat2\<in>set lib. \<forall>book2\<in>set (arrayOf (children cat2)).
            \<forall>sec2\<in>set (arrayOf (sections book2)).
              sec_title sec1 = sec_title sec2 \<longrightarrow>
                (sec_id sec1 = sec_id sec2 \<longleftrightarrow>
                   slugify (item_title book1) = slugify (item_title book2)))"
proof -
  let ?f = "finalState text"
  have ns: "sectionIdsNamespaced ?f"
    using wellFormed_finalState by (simp add: wellFormed_def)
  have id: "sec_id sec = ''sec-'' @ slugify (item_title book) @ ''-'' @ slugify (sec_title sec)"
    if "cat \<in> set lib" "book \<in> set (arrayOf (children cat))" "sec \<in> set (arrayOf (sections book))"
    for cat book sec
  proof -
    from in_library_sections [OF assms(1) that] obtain b a where
      "a \<in> set (sectionsOf ?f b)" "book = resolveBook ?f b" "sec = resolveSection ?f a"
      by blast
    with ns show ?thesis by (simp add: sectionIdsNamespaced_def)
  qed
  have 1: "sec_id sec1 = ''sec-'' @ slugify (item_title book1) @ ''-'' @ slugify (sec_title sec1)"
    using assms(2-4) by (rule id)
  have 2: "sec_id sec1 = sec_id sec2 \<longleftrightarrow> slugify (item_title book1) = slugify (item_title book2)"
    if "cat2 \<in> set lib" "book2 \<in> set (arrayOf (children cat2))"
      "sec2 \<in> set (arrayOf (sections book2))" "sec_title sec1 = sec_title sec2"
    for cat2 book2 sec2
  proof -
    have "sec_id sec2 = ''sec-'' @ slugify (item_title book2) @ ''-'' @ slugify (sec_title sec2)"
      using that(1-3) by (rule id)
    with 1 that(4) show ?thesis by simp
  qed
  from 1 2 show ?thesis by blast
qed

theorem section_ids_differ_across_books_witness:
  "sec_id \<lparr>sec_id = ''sec-matins-intro'', sec_title = ''Intro'',
            parts = [\<lparr>part_id = ''part-sec-matins-intro-1'', part_type = Prayer, content = []\<rparr>]\<rparr>
     = ''sec-'' @ slugify ''Matins'' @ ''-'' @ slugify ''Intro'' \<and>
   sec_id \<lparr>sec_id = ''sec-matins-intro'', sec_title = ''Intro'',
            parts = [\<lparr>part_id = ''part-sec-matins-intro-1'', part_type = Prayer, content = []\<rparr>]\<rparr>
   \<noteq> sec_id \<lparr>sec_id = ''sec-vespers-intro'', sec_title = ''Intro'',
            parts = [\<lparr>part_id = ''part-sec-vespers-intro-1'', part_type = Prayer, content = []\<rparr>]\<rparr> \<and>
   parseTextToLibrary ''# C\<newline>## Matins\<newline>### Intro\<newline>## Vespers\<newline>### Intro'' =
     Inr [LibraryItem ''cat-c'' ''C'' Category
            (Some [LibraryItem ''book-c-matins'' ''Matins'' Book None
                     (Some [\<lparr>sec_id = ''sec-matins-intro'', sec_title = ''Intro'',
                              parts = [\<lparr>part_id = ''part-sec-matins-intro-1'', part_type = Prayer,
                                         content = []\<rparr>]\<rparr>]),
                   LibraryItem ''book-c-vespers'' ''Vespers'' Book None
                     (Some [\<lparr>sec_id = ''sec-vespers-intro'', sec_title = ''Intro'',
                              parts = [\<lparr>part_id = ''part-sec-vespers-intro-1'', part_type = Prayer,
                                         content = []\<rparr>]\<rparr>])])
            None]"
proof -
  let ?s1 = "\<lparr>sec_id = ''sec-matins-intro'', sec_title = ''Intro'',
            parts = [\<lparr>part_id = ''part-sec-matins-intro-1'', part_type = Prayer, content = []\<rparr>]\<rparr>"
  let ?s2 = "\<lparr>sec_id = ''sec-vespers-intro'', sec_title = ''Intro'',
            parts = [\<lparr>part_id = ''part-sec-vespers-intro-1'', part_type = Prayer, content = []\<rparr>]\<rparr>"
  let ?b1 = "LibraryItem ''book-c-matins'' ''Matins'' Book None (Some [?s1])"
  let ?b2 = "LibraryItem ''book-c-vespers'' ''Vespers'' Book None (Some [?s2])"
  let ?c = "LibraryItem ''cat-c'' ''C'' Category (Some [?b1, ?b2]) None"
  have P: "parseTextToLibrary ''# C\<newline>## Matins\<newline>### Intro\<newline>## Vespers\<newline>### Intro'' = Inr [?c]"
    by code_simp
  have S: "slugify (item_title ?b1) \<noteq> slugify (item_title ?b2)" by code_simp
  have m1: "?c \<in> set [?c]" "?b1 \<in> set (arrayOf (children ?c))"
    "?s1 \<in> set (arrayOf (sections ?b1))" by simp_all
  have m2: "?b2 \<in> set (arrayOf (children ?c))" "?s2 \<in> set (arrayOf (sections ?b2))"
    "sec_title ?s1 = sec_title ?s2" by simp_all
  note inst = section_ids_differ_across_books [OF P m1]
  from inst have 1: "sec_id ?s1 = ''sec-'' @ slugify ''Matins'' @ ''-'' @ slugify ''Intro''"
    by simp
  from inst m1(1) m2
  have "sec_id ?s1 = sec_id ?s2 \<longleftrightarrow> slugify (item_title ?b1) = slugify (item_title ?b2)"
    by blast
  with S have 2: "sec_id ?s1 \<noteq> sec_id ?s2" by blast
  from 1 2 P show ?thesis by blast
qed

theorem section_ids_collide_counterexample:
  "parseTextToLibrary ''# C\<newline>## Prayers\<newline>### Introduction\<newline>## Prayers!\<newline>### Introduction'' =
     Inr [LibraryItem ''cat-c'' ''C'' Category
            (Some [LibraryItem ''book-c-prayers'' ''Prayers'' Book None
                     (Some [\<lparr>sec_id = ''sec-prayers-introduction'', sec_title = ''Introduction'',
                              parts = [\<lparr>part_id = ''part-sec-prayers-introduction-1'',
                                         part_type = Prayer, content = []\<rparr>]\<rparr>]),
                   LibraryItem ''book-c-prayers'' ''Prayers!'' Book None
                     (Some [\<lparr>sec_id = ''sec-prayers-introduction'', sec_title = ''Introduction'',
                              parts = [\<lparr>part_id = ''part-sec-prayers-introduction-1'',
                                         part_type = Prayer, content = []\<rparr>]\<rparr>])])
            None]"
  by code_simp

section \<open>What a step does to the tree\<close>

text \<open>
  The tree that the store denotes changes at the end of the cursor chain only. The
  functions below apply a change to the last element of an array of the tree.
\<close>

definition inLast :: "('a \<Rightarrow> 'a) \<Rightarrow> 'a list \<Rightarrow> 'a list" where
  "inLast f xs = (if xs = [] then [] else butlast xs @ [f (last xs)])"

fun inLastBook :: "(LibraryItem \<Rightarrow> LibraryItem) \<Rightarrow> LibraryItem \<Rightarrow> LibraryItem" where
  "inLastBook f (LibraryItem i t ty ch se) = LibraryItem i t ty (map_option (inLast f) ch) se"

fun inLastSection :: "(LiturgySection \<Rightarrow> LiturgySection) \<Rightarrow> LibraryItem \<Rightarrow> LibraryItem" where
  "inLastSection f (LibraryItem i t ty ch se) = LibraryItem i t ty ch (map_option (inLast f) se)"

definition inLastPart :: "(LiturgicalPart \<Rightarrow> LiturgicalPart) \<Rightarrow> LiturgySection \<Rightarrow> LiturgySection" where
  "inLastPart f sec = sec\<lparr>parts := inLast f (parts sec)\<rparr>"

fun addBook :: "(string \<Rightarrow> LibraryItem) \<Rightarrow> LibraryItem \<Rightarrow> LibraryItem" where
  "addBook mk (LibraryItem i t ty ch se) = LibraryItem i t ty (Some (arrayOf ch @ [mk t])) se"

fun addSection :: "(string \<Rightarrow> LiturgySection) \<Rightarrow> LibraryItem \<Rightarrow> LibraryItem" where
  "addSection mk (LibraryItem i t ty ch se) = LibraryItem i t ty ch (Some (arrayOf se @ [mk t]))"

definition addPart :: "(string \<Rightarrow> LiturgicalPart) \<Rightarrow> LiturgySection \<Rightarrow> LiturgySection" where
  "addPart mk sec = sec\<lparr>parts := parts sec @ [mk (sec_id sec)]\<rparr>"

lemma map_inLast:
  assumes "xs \<noteq> []" and "\<forall>y\<in>set (butlast xs). g y = h y" and "g (last xs) = f (h (last xs))"
  shows "map g xs = inLast f (map h xs)"
proof -
  have "map g xs = map g (butlast xs @ [last xs])" using assms(1) by simp
  also have "\<dots> = map h (butlast xs) @ [f (h (last xs))]" using assms(2,3) by simp
  also have "\<dots> = inLast f (map h xs)"
    using assms(1) by (simp add: inLast_def map_butlast last_map)
  finally show ?thesis .
qed

lemma last_not_in_butlast:
  assumes "distinct xs" and "xs \<noteq> []"
  shows "last xs \<notin> set (butlast xs)"
proof -
  have "distinct (butlast xs @ [last xs])" using assms by simp
  then show ?thesis by simp
qed

subsection \<open>The cursor chain\<close>

lemma cursor_part_last:
  assumes "wellFormed s" and "currentSection s = Some a" and "currentPart s = Some p"
  shows "partsOf s a \<noteq> []" and "last (partsOf s a) = p" and "p \<notin> set (butlast (partsOf s a))"
proof -
  show 1: "partsOf s a \<noteq> []" and 2: "last (partsOf s a) = p"
    using assms by (simp_all add: wellFormed_def cursorsLinked_def)
  have "distinct (partsOf s a)" using assms(1) by (simp add: wellFormed_def partsOwned_def)
  from last_not_in_butlast [OF this 1] 2 show "p \<notin> set (butlast (partsOf s a))" by simp
qed

lemma cursor_part_owner:
  "wellFormed s \<Longrightarrow> currentPart s = Some p \<Longrightarrow> p \<in> set (partsOf s a) \<Longrightarrow> currentSection s = Some a"
  by (simp add: wellFormed_def partsOwned_def)

lemma cursor_section_last:
  assumes "wellFormed s" and "currentBook s = Some b" and "currentSection s = Some a"
  shows "sectionsOf s b \<noteq> []" and "last (sectionsOf s b) = a"
    and "a \<notin> set (butlast (sectionsOf s b))"
proof -
  show 1: "sectionsOf s b \<noteq> []" and 2: "last (sectionsOf s b) = a"
    using assms by (simp_all add: wellFormed_def cursorsLinked_def)
  have "distinct (sectionsOf s b)" using assms(1) by (simp add: wellFormed_def sectionsOwned_def)
  from last_not_in_butlast [OF this 1] 2 show "a \<notin> set (butlast (sectionsOf s b))" by simp
qed

lemma cursor_section_owner:
  "wellFormed s \<Longrightarrow> currentSection s = Some a \<Longrightarrow> a \<in> set (sectionsOf s b) \<Longrightarrow> currentBook s = Some b"
  by (simp add: wellFormed_def sectionsOwned_def)

lemma cursor_book_last:
  assumes "wellFormed s" and "currentCat s = Some c" and "currentBook s = Some b"
  shows "booksOf s c \<noteq> []" and "last (booksOf s c) = b" and "b \<notin> set (butlast (booksOf s c))"
proof -
  show 1: "booksOf s c \<noteq> []" and 2: "last (booksOf s c) = b"
    using assms by (simp_all add: wellFormed_def cursorsLinked_def)
  have "distinct (booksOf s c)" using assms(1) by (simp add: wellFormed_def booksOwned_def)
  from last_not_in_butlast [OF this 1] 2 show "b \<notin> set (butlast (booksOf s c))" by simp
qed

lemma cursor_book_owner:
  "wellFormed s \<Longrightarrow> currentBook s = Some b \<Longrightarrow> b \<in> set (booksOf s c) \<Longrightarrow> currentCat s = Some c"
  by (simp add: wellFormed_def booksOwned_def)

lemma cursor_category_last:
  assumes "wellFormed s" and "currentCat s = Some c"
  shows "library s \<noteq> []" and "last (library s) = c" and "c \<notin> set (butlast (library s))"
proof -
  show 1: "library s \<noteq> []" and 2: "last (library s) = c"
    using assms by (simp_all add: wellFormed_def cursorsLinked_def)
  have "distinct (library s)" using assms(1) by (simp add: wellFormed_def categoriesOwned_def)
  from last_not_in_butlast [OF this 1] 2 show "c \<notin> set (butlast (library s))" by simp
qed

subsection \<open>A change at a cursor, seen from the level above\<close>

lemma resolveSection_lift:
  assumes wf: "wellFormed s" and st: "sectionStore s' = sectionStore s"
    and low: "\<And>p'. partStore s' p' =
        (if currentPart s = Some p' \<and> Q then f (partStore s p') else partStore s p')"
  shows "resolveSection s' a =
     (if currentSection s = Some a \<and> currentPart s \<noteq> None \<and> Q
      then inLastPart f (resolveSection s a) else resolveSection s a)"
proof (cases "currentSection s = Some a \<and> currentPart s \<noteq> None \<and> Q")
  case True
  then obtain p where p: "currentPart s = Some p" by auto
  note k = cursor_part_last [OF wf _ p, of a]
  have "map (partStore s') (partsOf s a) = inLast f (map (partStore s) (partsOf s a))"
  proof (rule map_inLast)
    show "partsOf s a \<noteq> []" using k True by simp
    show "\<forall>y\<in>set (butlast (partsOf s a)). partStore s' y = partStore s y"
      using k True p by (auto simp: low)
    show "partStore s' (last (partsOf s a)) = f (partStore s (last (partsOf s a)))"
      using k True p by (simp add: low)
  qed
  with True show ?thesis
    by (simp add: resolveSection_def inLastPart_def st partsOf_def)
next
  case False
  have "partStore s' y = partStore s y" if "y \<in> set (partsOf s a)" for y
    using False cursor_part_owner [OF wf _ that] by (auto simp: low)
  then have "map (partStore s') (partsOf s a) = map (partStore s) (partsOf s a)" by simp
  then have "resolveSection s' a = resolveSection s a"
    by (simp add: resolveSection_def st partsOf_def)
  then show ?thesis by (simp only: False if_False)
qed

lemma resolveBook_lift:
  assumes wf: "wellFormed s" and st: "bookStore s' = bookStore s"
    and low: "\<And>a'. resolveSection s' a' =
        (if currentSection s = Some a' \<and> Q then g (resolveSection s a') else resolveSection s a')"
  shows "resolveBook s' b =
     (if currentBook s = Some b \<and> currentSection s \<noteq> None \<and> Q
      then inLastSection g (resolveBook s b) else resolveBook s b)"
proof (cases "currentBook s = Some b \<and> currentSection s \<noteq> None \<and> Q")
  case True
  then obtain a where a: "currentSection s = Some a" by auto
  note k = cursor_section_last [OF wf _ a, of b]
  have ne: "sectionsOf s b \<noteq> []" using k True by simp
  then obtain ss where ss: "bo_sections (bookStore s b) = Some ss"
    by (cases "bo_sections (bookStore s b)") (auto simp: sectionsOf_def)
  have "map (resolveSection s') (sectionsOf s b) = inLast g (map (resolveSection s) (sectionsOf s b))"
  proof (rule map_inLast)
    show "sectionsOf s b \<noteq> []" by (rule ne)
    show "\<forall>y\<in>set (butlast (sectionsOf s b)). resolveSection s' y = resolveSection s y"
      using k True a by (auto simp: low)
    show "resolveSection s' (last (sectionsOf s b)) = g (resolveSection s (last (sectionsOf s b)))"
      using k True a by (simp add: low)
  qed
  with True ss show ?thesis
    by (simp add: resolveBook_def st sectionsOf_def)
next
  case False
  have "resolveSection s' y = resolveSection s y" if "y \<in> set (sectionsOf s b)" for y
    using False cursor_section_owner [OF wf _ that] by (auto simp: low)
  then have "map (resolveSection s') (sectionsOf s b) = map (resolveSection s) (sectionsOf s b)"
    by simp
  then have "map_option (map (resolveSection s')) (bo_sections (bookStore s b)) =
             map_option (map (resolveSection s)) (bo_sections (bookStore s b))"
    by (cases "bo_sections (bookStore s b)") (simp_all add: sectionsOf_def)
  then have "resolveBook s' b = resolveBook s b"
    by (simp add: resolveBook_def st)
  then show ?thesis by (simp only: False if_False)
qed

lemma resolveCategory_lift:
  assumes wf: "wellFormed s" and st: "categoryStore s' = categoryStore s"
    and low: "\<And>b'. resolveBook s' b' =
        (if currentBook s = Some b' \<and> Q then h (resolveBook s b') else resolveBook s b')"
  shows "resolveCategory s' c =
     (if currentCat s = Some c \<and> currentBook s \<noteq> None \<and> Q
      then inLastBook h (resolveCategory s c) else resolveCategory s c)"
proof (cases "currentCat s = Some c \<and> currentBook s \<noteq> None \<and> Q")
  case True
  then obtain b where b: "currentBook s = Some b" by auto
  note k = cursor_book_last [OF wf _ b, of c]
  have ne: "booksOf s c \<noteq> []" using k True by simp
  then obtain bs where bs: "co_children (categoryStore s c) = Some bs"
    by (cases "co_children (categoryStore s c)") (auto simp: booksOf_def)
  have "map (resolveBook s') (booksOf s c) = inLast h (map (resolveBook s) (booksOf s c))"
  proof (rule map_inLast)
    show "booksOf s c \<noteq> []" by (rule ne)
    show "\<forall>y\<in>set (butlast (booksOf s c)). resolveBook s' y = resolveBook s y"
      using k True b by (auto simp: low)
    show "resolveBook s' (last (booksOf s c)) = h (resolveBook s (last (booksOf s c)))"
      using k True b by (simp add: low)
  qed
  with True bs show ?thesis
    by (simp add: resolveCategory_def st booksOf_def)
next
  case False
  have "resolveBook s' y = resolveBook s y" if "y \<in> set (booksOf s c)" for y
    using False cursor_book_owner [OF wf _ that] by (auto simp: low)
  then have "map (resolveBook s') (booksOf s c) = map (resolveBook s) (booksOf s c)"
    by simp
  then have "map_option (map (resolveBook s')) (co_children (categoryStore s c)) =
             map_option (map (resolveBook s)) (co_children (categoryStore s c))"
    by (cases "co_children (categoryStore s c)") (simp_all add: booksOf_def)
  then have "resolveCategory s' c = resolveCategory s c"
    by (simp add: resolveCategory_def st)
  then show ?thesis by (simp only: False if_False)
qed

lemma resolveLibrary_lift:
  assumes wf: "wellFormed s" and st: "library s' = library s"
    and low: "\<And>c'. resolveCategory s' c' =
        (if currentCat s = Some c' \<and> Q then k (resolveCategory s c') else resolveCategory s c')"
  shows "resolveLibrary s' =
     (if currentCat s \<noteq> None \<and> Q then inLast k (resolveLibrary s) else resolveLibrary s)"
proof (cases "currentCat s \<noteq> None \<and> Q")
  case True
  then obtain c where c: "currentCat s = Some c" by auto
  note l = cursor_category_last [OF wf c]
  have "map (resolveCategory s') (library s) = inLast k (map (resolveCategory s) (library s))"
  proof (rule map_inLast)
    show "library s \<noteq> []" by (rule l)
    show "\<forall>y\<in>set (butlast (library s)). resolveCategory s' y = resolveCategory s y"
      using l c by (auto simp: low)
    show "resolveCategory s' (last (library s)) = k (resolveCategory s (last (library s)))"
      using l c True by (simp add: low)
  qed
  with True show ?thesis
    by (simp add: resolveLibrary_def st)
next
  case False
  then have "resolveCategory s' y = resolveCategory s y" for y
    by (auto simp: low)
  then have "resolveLibrary s' = resolveLibrary s"
    by (simp add: resolveLibrary_def st)
  then show ?thesis by (simp only: False if_False)
qed

subsection \<open>The tree after each kind of line\<close>

definition depth :: "parser_state \<Rightarrow> nat" where
  "depth s =
     (if currentCat s = None then 0
      else if currentBook s = None then 1
      else if currentSection s = None then 2
      else if currentPart s = None then 3
      else 4)"

definition addParagraph :: "Language \<Rightarrow> string \<Rightarrow> LiturgicalPart \<Rightarrow> LiturgicalPart" where
  "addParagraph l t pt =
     pt\<lparr>content := setContent l (arrayOf (map_of (content pt) l) @ (if t = [] then [] else [t]))
                      (content pt)\<rparr>"

definition newPart :: "nat \<Rightarrow> string \<Rightarrow> LiturgicalPart" where
  "newPart n sid =
     \<lparr>part_id = ''part-'' @ orElse sid ''root'' @ ''-'' @ numberToString n,
      part_type = Prayer, content = []\<rparr>"

definition newSection :: "string \<Rightarrow> string \<Rightarrow> LiturgySection" where
  "newSection t bookTitle =
     (let title = trim (replaceFirst ''###'' [] t);
          sid = ''sec-'' @ slugify bookTitle @ ''-'' @ slugify title
      in \<lparr>sec_id = sid, sec_title = title, parts = [newPart 1 sid]\<rparr>)"

definition newBook :: "string \<Rightarrow> string \<Rightarrow> LibraryItem" where
  "newBook t catTitle =
     (let title = trim (replaceFirst ''##'' [] t)
      in LibraryItem (''book-'' @ slugify catTitle @ ''-'' @ slugify title) title Book None (Some []))"

definition newCategory :: "string \<Rightarrow> LibraryItem" where
  "newCategory t =
     (let title = trim (replaceFirst ''#'' [] t)
      in LibraryItem (''cat-'' @ slugify title) title Category (Some []) None)"

lemma resolveLibrary_appendParagraph:
  assumes wf: "wellFormed s" and p: "currentPart s = Some p"
  shows "resolveLibrary (appendParagraph s l p t) =
     (if depth s = 4
      then inLast (inLastBook (inLastSection (inLastPart (addParagraph l t)))) (resolveLibrary s)
      else resolveLibrary s)"
proof -
  let ?s' = "appendParagraph s l p t"
  have 0: "partStore ?s' p' =
      (if currentPart s = Some p' \<and> True then addParagraph l t (partStore s p') else partStore s p')"
    for p'
    using p by (simp add: appendParagraph_def addParagraph_def paragraphs_def)
  have st: "sectionStore ?s' = sectionStore s" "bookStore ?s' = bookStore s"
    "categoryStore ?s' = categoryStore s" "library ?s' = library s"
    by (simp_all add: appendParagraph_def)
  note 1 = resolveSection_lift [OF wf st(1) 0]
  note 2 = resolveBook_lift [OF wf st(2) 1]
  note 3 = resolveCategory_lift [OF wf st(3) 2]
  note 4 = resolveLibrary_lift [OF wf st(4) 3]
  show ?thesis unfolding 4 by (simp add: depth_def)
qed

lemma resolveSection_createNewPart:
  assumes wf: "wellFormed s"
  shows "resolveSection (createNewPart s) a =
     (if currentSection s = Some a \<and> True
      then addPart (newPart (Suc (partCount s))) (resolveSection s a) else resolveSection s a)"
proof -
  have old: "partStore (createNewPart s) y = partStore s y" if "y \<in> set (partsOf s x)" for x y
    using partsOwned_bound [OF _ that] wf
    by (auto simp: createNewPart_partStore wellFormed_def)
  then have m: "map (partStore (createNewPart s)) (partsOf s x) = map (partStore s) (partsOf s x)"
    for x by simp
  show ?thesis
  proof (cases "currentSection s = Some a")
    case True
    then show ?thesis
      using m [of a]
      by (simp add: resolveSection_def createNewPart_sectionStore createNewPart_partStore
          addPart_def newPart_def partsOf_def)
  next
    case False
    then show ?thesis
      using m [of a]
      by (cases "currentSection s")
         (simp_all add: resolveSection_def createNewPart_sectionStore partsOf_def)
  qed
qed

lemma resolveLibrary_createNewPart:
  assumes wf: "wellFormed s"
  shows "resolveLibrary (createNewPart s) =
     (if 3 \<le> depth s
      then inLast (inLastBook (inLastSection (addPart (newPart (Suc (partCount s)))))) (resolveLibrary s)
      else resolveLibrary s)"
proof -
  let ?s' = "createNewPart s"
  note 1 = resolveSection_createNewPart [OF wf]
  have st: "bookStore ?s' = bookStore s" "categoryStore ?s' = categoryStore s" "library ?s' = library s"
    by simp_all
  note 2 = resolveBook_lift [OF wf st(1) 1]
  note 3 = resolveCategory_lift [OF wf st(2) 2]
  note 4 = resolveLibrary_lift [OF wf st(3) 3]
  show ?thesis unfolding 4 by (simp add: depth_def)
qed

lemma resolveSection_fresh:
  assumes "sectionStore s' a = sectionStore s a"
    and "\<forall>p\<in>set (partsOf s a). partStore s' p = partStore s p"
  shows "resolveSection s' a = resolveSection s a"
  using assms by (simp add: resolveSection_def partsOf_def)

lemma resolveBook_fresh:
  assumes "bookStore s' b = bookStore s b"
    and "\<forall>a\<in>set (sectionsOf s b). resolveSection s' a = resolveSection s a"
  shows "resolveBook s' b = resolveBook s b"
proof -
  have "map (resolveSection s') (sectionsOf s b) = map (resolveSection s) (sectionsOf s b)"
    using assms(2) by simp
  then have "map_option (map (resolveSection s')) (bo_sections (bookStore s b)) =
             map_option (map (resolveSection s)) (bo_sections (bookStore s b))"
    by (cases "bo_sections (bookStore s b)") (simp_all add: sectionsOf_def)
  then show ?thesis by (simp add: resolveBook_def assms(1))
qed

lemma resolveSection_openSection:
  assumes wf: "wellFormed s"
  shows "resolveSection (openSection s t) a =
     (if a = nextSection s
      then newSection t (case currentBook s of None \<Rightarrow> [] | Some b \<Rightarrow> bo_title (bookStore s b))
      else resolveSection s a)"
proof (cases "a = nextSection s")
  case True
  then show ?thesis
    by (simp add: resolveSection_def openSection_sectionStore openSection_partStore
        newSection_def newPart_def Let_def)
next
  case False
  have "partStore (openSection s t) p = partStore s p" if "p \<in> set (partsOf s a)" for p
    using partsOwned_bound [OF _ that] wf by (auto simp: openSection_partStore wellFormed_def)
  with False show ?thesis
    by (simp add: resolveSection_def openSection_sectionStore partsOf_def)
qed

lemma resolveBook_openSection:
  assumes wf: "wellFormed s"
  shows "resolveBook (openSection s t) b =
     (if currentBook s = Some b \<and> True
      then addSection (newSection t) (resolveBook s b) else resolveBook s b)"
proof -
  have old: "resolveSection (openSection s t) a = resolveSection s a"
    if "a \<in> set (sectionsOf s x)" for a x
    using sectionsOwned_bound [OF _ that] wf
    by (auto simp: resolveSection_openSection wellFormed_def)
  then have m: "map (resolveSection (openSection s t)) (sectionsOf s x) =
                map (resolveSection s) (sectionsOf s x)" for x
    by simp
  show ?thesis
  proof (cases "currentBook s = Some b")
    case True
    then show ?thesis
      by (simp add: resolveBook_def openSection_bookStore m resolveSection_openSection [OF wf]
          flip: sectionsOf_def)
  next
    case False
    have "bookStore (openSection s t) b = bookStore s b"
      using False by (cases "currentBook s") (simp_all add: openSection_bookStore)
    then have "resolveBook (openSection s t) b = resolveBook s b"
      using old by (intro resolveBook_fresh) simp_all
    with False show ?thesis by simp
  qed
qed

lemma resolveLibrary_openSection:
  assumes wf: "wellFormed s"
  shows "resolveLibrary (openSection s t) =
     (if 2 \<le> depth s
      then inLast (inLastBook (addSection (newSection t))) (resolveLibrary s)
      else resolveLibrary s)"
proof -
  let ?s' = "openSection s t"
  note 2 = resolveBook_openSection [OF wf]
  have st: "categoryStore ?s' = categoryStore s" "library ?s' = library s"
    by simp_all
  note 3 = resolveCategory_lift [OF wf st(1) 2]
  note 4 = resolveLibrary_lift [OF wf st(2) 3]
  show ?thesis unfolding 4 by (simp add: depth_def)
qed

lemma resolveBook_openBook:
  "resolveBook (openBook s t) b =
     (if b = nextBook s
      then newBook t (case currentCat s of None \<Rightarrow> [] | Some c \<Rightarrow> co_title (categoryStore s c))
      else resolveBook s b)"
proof (cases "b = nextBook s")
  case True
  then show ?thesis
    by (simp add: resolveBook_def openBook_bookStore newBook_def Let_def)
next
  case False
  have "resolveSection (openBook s t) = resolveSection s"
    by (rule ext) (simp add: resolveSection_def)
  with False show ?thesis
    by (simp add: resolveBook_def openBook_bookStore)
qed

lemma resolveCategory_openBook:
  assumes wf: "wellFormed s"
  shows "resolveCategory (openBook s t) c =
     (if currentCat s = Some c \<and> True
      then addBook (newBook t) (resolveCategory s c) else resolveCategory s c)"
proof -
  have old: "resolveBook (openBook s t) b = resolveBook s b" if "b \<in> set (booksOf s x)" for b x
    using booksOwned_bound [OF _ that] wf by (auto simp: resolveBook_openBook wellFormed_def)
  then have m: "map (resolveBook (openBook s t)) (booksOf s x) = map (resolveBook s) (booksOf s x)"
    for x by simp
  show ?thesis
  proof (cases "currentCat s = Some c")
    case True
    then show ?thesis
      by (simp add: resolveCategory_def openBook_categoryStore m resolveBook_openBook
          flip: booksOf_def)
  next
    case False
    have "categoryStore (openBook s t) c = categoryStore s c"
      using False by (cases "currentCat s") (simp_all add: openBook_categoryStore)
    moreover have "map_option (map (resolveBook (openBook s t))) (co_children (categoryStore s c)) =
        map_option (map (resolveBook s)) (co_children (categoryStore s c))"
      using m [of c] by (cases "co_children (categoryStore s c)") (simp_all add: booksOf_def)
    ultimately show ?thesis using False by (simp add: resolveCategory_def)
  qed
qed

lemma resolveLibrary_openBook:
  assumes wf: "wellFormed s"
  shows "resolveLibrary (openBook s t) =
     (if 1 \<le> depth s then inLast (addBook (newBook t)) (resolveLibrary s) else resolveLibrary s)"
proof -
  let ?s' = "openBook s t"
  note 3 = resolveCategory_openBook [OF wf]
  have st: "library ?s' = library s" by simp
  note 4 = resolveLibrary_lift [OF wf st 3]
  show ?thesis unfolding 4 by (simp add: depth_def)
qed

lemma resolveLibrary_openCategory:
  assumes wf: "wellFormed s"
  shows "resolveLibrary (openCategory s t) = resolveLibrary s @ [newCategory t]"
proof -
  have "resolveCategory (openCategory s t) c = resolveCategory s c" if "c \<in> set (library s)" for c
  proof -
    have "c \<noteq> nextCategory s"
      using wf that by (auto simp: wellFormed_def categoriesOwned_def)
    moreover have "resolveSection (openCategory s t) = resolveSection s"
      by (rule ext) (simp add: resolveSection_def)
    then have "resolveBook (openCategory s t) = resolveBook s"
      by (intro ext) (simp add: resolveBook_def)
    ultimately show ?thesis
      by (simp add: resolveCategory_def openCategory_categoryStore)
  qed
  moreover have "resolveCategory (openCategory s t) (nextCategory s) = newCategory t"
    by (simp add: resolveCategory_def openCategory_categoryStore newCategory_def Let_def)
  ultimately show ?thesis by (simp add: resolveLibrary_def)
qed

subsection \<open>States that denote the same tree\<close>

text \<open>
  Two states have the same view when they denote the same tree, their cursor chains are
  attached to it to the same depth, and, with a current Section in the tree, they agree on
  the active language and on the part counter. What the cursors point to outside the tree
  is not part of the view.
\<close>

definition sameView :: "parser_state \<Rightarrow> parser_state \<Rightarrow> bool" where
  "sameView s1 s2 =
     (resolveLibrary s1 = resolveLibrary s2 \<and> depth s1 = depth s2 \<and>
      (3 \<le> depth s1 \<longrightarrow> currentLang s1 = currentLang s2 \<and> partCount s1 = partCount s2))"

lemma depth_openCategory [simp]: "depth (openCategory s t) = 1"
  by (simp add: depth_def)

lemma depth_openBook [simp]: "depth (openBook s t) = (if depth s = 0 then 0 else 2)"
  by (simp add: depth_def)

lemma depth_openSection [simp]: "depth (openSection s t) = (if depth s \<le> 1 then depth s else 4)"
  by (simp add: depth_def)

lemma depth_createNewPart [simp]: "depth (createNewPart s) = (if depth s \<le> 2 then depth s else 4)"
  by (simp add: depth_def)

lemma depth_appendParagraph [simp]: "depth (appendParagraph s l p t) = depth s"
  by (simp add: depth_def appendParagraph_def)

lemma depth_currentLang [simp]: "depth (s\<lparr>currentLang := x\<rparr>) = depth s"
  by (simp add: depth_def)

lemma resolveLibrary_currentLang [simp]: "resolveLibrary (s\<lparr>currentLang := x\<rparr>) = resolveLibrary s"
proof -
  have "resolveSection (s\<lparr>currentLang := x\<rparr>) = resolveSection s"
    by (rule ext) (simp add: resolveSection_def)
  then have "resolveBook (s\<lparr>currentLang := x\<rparr>) = resolveBook s"
    by (intro ext) (simp add: resolveBook_def)
  then have "resolveCategory (s\<lparr>currentLang := x\<rparr>) = resolveCategory s"
    by (intro ext) (simp add: resolveCategory_def)
  then show ?thesis by (simp add: resolveLibrary_def)
qed

lemma partCount_appendParagraph [simp]: "partCount (appendParagraph s l p t) = partCount s"
  by (simp add: appendParagraph_def)

lemma nextState_book:
  "startsWith (trim line) ''##'' \<Longrightarrow> \<not> startsWith (trim line) ''###'' \<Longrightarrow>
   nextState s line = openBook s (trim line)"
  by (auto simp: nextState_def Let_def dest: startsWith_nonempty)

lemma nextState_category:
  "startsWith (trim line) ''#'' \<Longrightarrow> \<not> startsWith (trim line) ''##'' \<Longrightarrow>
   nextState s line = openCategory s (trim line)"
  using startsWith_hash3 [of "trim line"]
  by (auto simp: nextState_def Let_def dest: startsWith_nonempty)

lemma nextState_delimiter:
  "trim line = ''---'' \<Longrightarrow> nextState s line = (createNewPart s)\<lparr>currentLang := None\<rparr>"
  by (simp add: nextState_def Let_def startsWith_def)

definition contentResult :: "parser_state \<Rightarrow> string \<Rightarrow> parser_state" where
  "contentResult s t =
     (case currentLang s of
        None \<Rightarrow> s
      | Some l \<Rightarrow> (case currentPart s of None \<Rightarrow> s | Some p \<Rightarrow> appendParagraph s l p t))"

lemma nextState_other:
  assumes "isContentLine line"
  shows "nextState s line = contentResult s (trim line)"
  using assms startsWith_hash2 [of "trim line"] startsWith_hash3 [of "trim line"]
  by (auto simp: nextState_def isContentLine_def contentResult_def Let_def split: option.split)

lemma line_cases:
  obtains (sectionLine) "startsWith (trim line) ''###''"
  | (bookLine) "startsWith (trim line) ''##''" "\<not> startsWith (trim line) ''###''"
  | (categoryLine) "startsWith (trim line) ''#''" "\<not> startsWith (trim line) ''##''"
  | (delimiterLine) "trim line = ''---''"
  | (tagLine) "isLanguageTag (trim line)"
  | (otherLine) "isContentLine line"
  unfolding isContentLine_def by blast

lemma resolveLibrary_contentResult:
  assumes wf: "wellFormed s"
  shows "resolveLibrary (contentResult s t) =
     (case currentLang s of
        None \<Rightarrow> resolveLibrary s
      | Some l \<Rightarrow>
          if depth s = 4
          then inLast (inLastBook (inLastSection (inLastPart (addParagraph l t)))) (resolveLibrary s)
          else resolveLibrary s)"
proof (cases "currentLang s")
  case None
  then show ?thesis by (simp add: contentResult_def)
next
  case (Some l)
  show ?thesis
  proof (cases "currentPart s")
    case None
    with Some show ?thesis by (simp add: contentResult_def depth_def)
  next
    case (Some p)
    with \<open>currentLang s = Some l\<close> resolveLibrary_appendParagraph [OF wf Some]
    show ?thesis by (simp add: contentResult_def)
  qed
qed

lemma contentResult_cursor [simp]:
  "depth (contentResult s t) = depth s"
  "currentLang (contentResult s t) = currentLang s"
  "partCount (contentResult s t) = partCount s"
  by (simp_all add: contentResult_def split: option.split)

lemma sameView_nextState:
  assumes wf1: "wellFormed s1" and wf2: "wellFormed s2" and sv: "sameView s1 s2"
  shows "sameView (nextState s1 line) (nextState s2 line)"
proof -
  from sv have lib: "resolveLibrary s1 = resolveLibrary s2" and d: "depth s1 = depth s2"
    and deep: "3 \<le> depth s2 \<Longrightarrow> currentLang s1 = currentLang s2 \<and> partCount s1 = partCount s2"
    by (simp_all add: sameView_def)
  show ?thesis
  proof (cases line rule: line_cases)
    case sectionLine
    then show ?thesis
      by (simp add: nextState_section sameView_def resolveLibrary_openSection wf1 wf2 lib d)
  next
    case bookLine
    then show ?thesis
      by (simp add: nextState_book sameView_def resolveLibrary_openBook wf1 wf2 lib d)
  next
    case categoryLine
    then show ?thesis
      by (simp add: nextState_category sameView_def resolveLibrary_openCategory wf1 wf2 lib)
  next
    case delimiterLine
    then show ?thesis
      using deep
      by (auto simp: nextState_delimiter sameView_def resolveLibrary_createNewPart wf1 wf2 lib d)
  next
    case tagLine
    then show ?thesis
      using deep by (simp add: nextState_tag sameView_def lib d)
  next
    case otherLine
    show ?thesis
    proof (cases "depth s2 = 4")
      case True
      with deep have "currentLang s1 = currentLang s2" "partCount s1 = partCount s2" by simp_all
      with True show ?thesis
        by (simp add: nextState_other [OF otherLine] sameView_def resolveLibrary_contentResult
            wf1 wf2 lib d split: option.split)
    next
      case False
      then have "resolveLibrary (contentResult s1 (trim line)) = resolveLibrary s1"
        "resolveLibrary (contentResult s2 (trim line)) = resolveLibrary s2"
        by (simp_all add: resolveLibrary_contentResult wf1 wf2 d split: option.split)
      then show ?thesis
        using deep by (simp add: nextState_other [OF otherLine] sameView_def lib d)
    qed
  qed
qed

lemma sameView_foldl:
  assumes "wellFormed s1" and "wellFormed s2" and "sameView s1 s2"
  shows "sameView (foldl nextState s1 ls) (foldl nextState s2 ls)"
  using assms
proof (induction ls arbitrary: s1 s2)
  case Nil
  then show ?case by simp
next
  case (Cons l ls)
  show ?case
    using Cons.prems by (auto intro!: Cons.IH wellFormed_nextState sameView_nextState)
qed

subsection \<open>The early return on blank text\<close>

lemma trim_empty_iff: "trim s = [] \<longleftrightarrow> (\<forall>c\<in>set s. isWhiteSpace c)"
proof
  assume "trim s = []"
  then have "\<forall>c\<in>set (dropWhile isWhiteSpace s). isWhiteSpace c"
    by (simp add: trim_def dropWhile_eq_Nil_conv)
  then have "dropWhile isWhiteSpace s = []"
    using hd_dropWhile [of isWhiteSpace s] hd_in_set [of "dropWhile isWhiteSpace s"] by blast
  then show "\<forall>c\<in>set s. isWhiteSpace c" by (simp add: dropWhile_eq_Nil_conv)
next
  assume "\<forall>c\<in>set s. isWhiteSpace c"
  then have "dropWhile isWhiteSpace s = []" by (simp add: dropWhile_eq_Nil_conv)
  then show "trim s = []" by (simp only: trim_def rev.simps dropWhile.simps)
qed

lemma split_nonempty: "split d s \<noteq> []"
  by (induction s) (simp_all add: Let_def)

lemma split_chars: "l \<in> set (split d s) \<Longrightarrow> set l \<subseteq> set s"
proof (induction s arbitrary: l)
  case Nil
  then show ?case by simp
next
  case (Cons c cs)
  let ?r = "split d cs"
  have r: "?r = hd ?r # tl ?r" using split_nonempty [of d cs] by simp
  show ?case
  proof (cases "c = d")
    case True
    with Cons show ?thesis by (auto simp: Let_def)
  next
    case False
    with Cons.prems have "l = c # hd ?r \<or> l \<in> set (tl ?r)" by (simp add: Let_def)
    then show ?thesis
    proof
      assume "l = c # hd ?r"
      moreover have "hd ?r \<in> set ?r" using split_nonempty [of d cs] by simp
      ultimately show ?thesis using Cons.IH [of "hd ?r"] by auto
    next
      assume "l \<in> set (tl ?r)"
      then have "l \<in> set ?r" using r by (metis list.set_intros(2))
      then show ?thesis using Cons.IH [of l] by auto
    qed
  qed
qed

lemma nextState_blank: "trim line = [] \<Longrightarrow> currentLang s = None \<Longrightarrow> nextState s line = s"
  by (simp add: nextState_def)

lemma foldl_blank_lines:
  "\<forall>l\<in>set ls. trim l = [] \<Longrightarrow> currentLang s = None \<Longrightarrow> foldl nextState s ls = s"
  by (induction ls) (simp_all add: nextState_blank)

lemma resolveLibrary_initialState: "resolveLibrary initialState = []"
  by (simp add: resolveLibrary_def initialState_def)

lemma parseTextToLibrary_finalState:
  "parseTextToLibrary text = Inr (resolveLibrary (finalState text))"
proof (cases "trim text = []")
  case True
  then have "\<forall>l\<in>set (split (CHR 0x0A) text). trim l = []"
    using split_chars [of _ "CHR 0x0A" "text"] by (fastforce simp: trim_empty_iff)
  then have "finalState text = initialState"
    unfolding finalState_def by (rule foldl_blank_lines) (simp add: initialState_def)
  with True show ?thesis
    by (simp add: parseTextToLibrary_eq resolveLibrary_initialState)
next
  case False
  then show ?thesis by (simp add: parseTextToLibrary_eq finalState_def)
qed

subsection \<open>Lines that leave the tree as it is\<close>

lemma line_without_effect:
  assumes wf: "wellFormed s" and sv: "sameView (nextState s line) s"
  shows "resolveLibrary (foldl nextState s (line # rest)) = resolveLibrary (foldl nextState s rest)"
proof -
  have "sameView (foldl nextState (nextState s line) rest) (foldl nextState s rest)"
    using wf sv by (intro sameView_foldl wellFormed_nextState)
  then show ?thesis by (simp add: sameView_def)
qed

lemma line_without_effect_text:
  assumes s: "s = foldl nextState initialState pre" and sv: "sameView (nextState s line) s"
    and t1: "split (CHR 0x0A) text1 = pre @ line # rest"
    and t2: "split (CHR 0x0A) text2 = pre @ rest"
  shows "parseTextToLibrary text1 = parseTextToLibrary text2"
proof -
  have wf: "wellFormed s" unfolding s by (intro wellFormed_foldl wellFormed_initialState)
  from line_without_effect [OF wf sv, of rest]
  show ?thesis
    by (simp add: parseTextToLibrary_finalState finalState_def t1 t2 s)
qed

lemma sameView_orphan_delimiter:
  assumes wf: "wellFormed s" and "currentSection s = None" and "trim line = ''---''"
  shows "sameView (nextState s line) s"
proof -
  have "depth s \<le> 2" using assms(2) by (simp add: depth_def)
  then show ?thesis
    using assms(3) by (simp add: nextState_delimiter sameView_def resolveLibrary_createNewPart wf)
qed

lemma sameView_orphan_section:
  assumes wf: "wellFormed s" and "currentBook s = None" and "startsWith (trim line) ''###''"
  shows "sameView (nextState s line) s"
proof -
  have "depth s \<le> 1" using assms(2) by (simp add: depth_def)
  then show ?thesis
    using assms(3) by (simp add: nextState_section sameView_def resolveLibrary_openSection wf)
qed

lemma sameView_orphan_book:
  assumes wf: "wellFormed s" and "currentCat s = None"
    and "startsWith (trim line) ''##''" and "\<not> startsWith (trim line) ''###''"
  shows "sameView (nextState s line) s"
proof -
  have "depth s = 0" using assms(2) by (simp add: depth_def)
  then show ?thesis
    using assms(3,4) by (simp add: nextState_book sameView_def resolveLibrary_openBook wf)
qed

section \<open>Orphans\<close>

lemma reached_state:
  assumes "forEach initialState pre = Inr s"
  shows "s = foldl nextState initialState pre" and "wellFormed s"
proof -
  show "s = foldl nextState initialState pre" using assms by (simp add: forEach_eq)
  then show "wellFormed s" by (simp add: wellFormed_foldl wellFormed_initialState)
qed

lemma line_without_effect_runs:
  assumes s: "forEach initialState pre = Inr s" and sv: "sameView (nextState s line) s"
  shows "\<exists>s1 s2. forEach initialState (pre @ line # rest) = Inr s1 \<and>
           forEach initialState (pre @ rest) = Inr s2 \<and> resolveLibrary s1 = resolveLibrary s2"
  using line_without_effect [OF reached_state(2) [OF s] sv, of rest] reached_state(1) [OF s]
  by (simp add: forEach_eq)

lemma line_without_effect_parse:
  assumes s: "forEach initialState pre = Inr s" and sv: "sameView (nextState s line) s"
    and t: "split (CHR 0x0A) text1 = pre @ line # rest \<and> split (CHR 0x0A) text2 = pre @ rest"
  shows "\<exists>lib. parseTextToLibrary text1 = Inr lib \<and> parseTextToLibrary text2 = Inr lib"
  using line_without_effect_text [OF reached_state(1) [OF s] sv, of text1 rest text2] t
  by (simp add: parseTextToLibrary_finalState)

text \<open>
  C7: a "---" line read while there is no current Section adds no Part to any Section and
  leaves the tree as it is; the Library returned for the whole text is the one returned for
  the text without that line, and both calls return.
\<close>

theorem orphan_delimiter_is_noop:
  assumes "forEach initialState pre = Inr s" and "currentSection s = None"
    and "trim line = ''---''"
  shows "(\<exists>s'. step s line = Inr s' \<and> resolveLibrary s' = resolveLibrary s \<and>
            sectionStore s' = sectionStore s) \<and>
         (\<exists>s1 s2. forEach initialState (pre @ line # rest) = Inr s1 \<and>
            forEach initialState (pre @ rest) = Inr s2 \<and> resolveLibrary s1 = resolveLibrary s2) \<and>
         (split (CHR 0x0A) text1 = pre @ line # rest \<and> split (CHR 0x0A) text2 = pre @ rest \<longrightarrow>
            (\<exists>lib. parseTextToLibrary text1 = Inr lib \<and> parseTextToLibrary text2 = Inr lib))"
proof -
  have wf: "wellFormed s" using assms(1) by (rule reached_state)
  have sv: "sameView (nextState s line) s"
    using wf assms(2,3) by (rule sameView_orphan_delimiter)
  have "step s line = Inr (nextState s line)" by (rule step_eq)
  moreover have "resolveLibrary (nextState s line) = resolveLibrary s"
    using sv by (simp add: sameView_def)
  moreover have "sectionStore (nextState s line) = sectionStore s"
    using assms(2,3) by (simp add: nextState_delimiter createNewPart_sectionStore)
  ultimately have 1: "\<exists>s'. step s line = Inr s' \<and> resolveLibrary s' = resolveLibrary s \<and>
            sectionStore s' = sectionStore s" by simp
  note 2 = line_without_effect_runs [OF assms(1) sv, of rest]
  have 3: "split (CHR 0x0A) text1 = pre @ line # rest \<and> split (CHR 0x0A) text2 = pre @ rest \<longrightarrow>
            (\<exists>lib. parseTextToLibrary text1 = Inr lib \<and> parseTextToLibrary text2 = Inr lib)"
    using line_without_effect_parse [OF assms(1) sv] by blast
  from 1 2 3 show ?thesis by blast
qed

theorem orphan_delimiter_is_noop_witness:
  "\<exists>lib. parseTextToLibrary ''# C\<newline>## B\<newline> --- \<newline>### S\<newline>[EN]\<newline>x'' = Inr lib \<and>
         parseTextToLibrary ''# C\<newline>## B\<newline>### S\<newline>[EN]\<newline>x'' = Inr lib"
proof -
  let ?pre = "[''# C'', ''## B'']"
  let ?rest = "[''### S'', ''[EN]'', ''x'']"
  have a: "forEach initialState ?pre = Inr (foldl nextState initialState ?pre)"
    by (rule forEach_eq)
  have b: "currentSection (foldl nextState initialState ?pre) = None" by code_simp
  have c: "trim '' --- '' = ''---''" by code_simp
  have d: "split (CHR 0x0A) ''# C\<newline>## B\<newline> --- \<newline>### S\<newline>[EN]\<newline>x'' = ?pre @ '' --- '' # ?rest"
    by code_simp
  have e: "split (CHR 0x0A) ''# C\<newline>## B\<newline>### S\<newline>[EN]\<newline>x'' = ?pre @ ?rest"
    by code_simp
  from orphan_delimiter_is_noop [OF a b c, of ?rest
      "''# C\<newline>## B\<newline> --- \<newline>### S\<newline>[EN]\<newline>x''"
      "''# C\<newline>## B\<newline>### S\<newline>[EN]\<newline>x''"] d e
  show ?thesis by blast
qed

text \<open>
  C3: a Section heading read while there is no current Book, and a Book heading read
  while there is no current Category, make an orphan: the line changes no Category and no
  existing Book, the tree stays as it is, and the Library returned for the whole text is
  the one returned for the text without that line. A content line read while there is no
  current Part changes nothing. Parsing "[EN]", "Hello" returns the empty Library.
\<close>

theorem orphan_heading_is_discarded:
  "(forEach initialState pre = Inr s \<and>
      (startsWith (trim line) ''###'' \<and> currentBook s = None \<or>
       startsWith (trim line) ''##'' \<and> \<not> startsWith (trim line) ''###'' \<and> currentCat s = None) \<longrightarrow>
      (\<exists>s'. step s line = Inr s' \<and> resolveLibrary s' = resolveLibrary s \<and>
         library s' = library s \<and> categoryStore s' = categoryStore s \<and>
         (\<forall>b<nextBook s. bookStore s' b = bookStore s b)) \<and>
      (\<exists>s1 s2. forEach initialState (pre @ line # rest) = Inr s1 \<and>
         forEach initialState (pre @ rest) = Inr s2 \<and> resolveLibrary s1 = resolveLibrary s2) \<and>
      (split (CHR 0x0A) text1 = pre @ line # rest \<and> split (CHR 0x0A) text2 = pre @ rest \<longrightarrow>
         (\<exists>lib. parseTextToLibrary text1 = Inr lib \<and> parseTextToLibrary text2 = Inr lib))) \<and>
   (isContentLine line \<and> currentPart s = None \<longrightarrow> step s line = Inr s) \<and>
   parseTextToLibrary ''[EN]\<newline>Hello'' = Inr []"
proof (intro conjI impI)
  assume h: "forEach initialState pre = Inr s \<and>
      (startsWith (trim line) ''###'' \<and> currentBook s = None \<or>
       startsWith (trim line) ''##'' \<and> \<not> startsWith (trim line) ''###'' \<and> currentCat s = None)"
  then have run: "forEach initialState pre = Inr s" by simp
  have wf: "wellFormed s" using run by (rule reached_state)
  have sv: "sameView (nextState s line) s"
    using h sameView_orphan_section [OF wf] sameView_orphan_book [OF wf] by blast
  have stores: "library (nextState s line) = library s \<and>
      categoryStore (nextState s line) = categoryStore s \<and>
      (\<forall>b<nextBook s. bookStore (nextState s line) b = bookStore s b)"
    using h
    by (auto simp: nextState_section nextState_book openSection_bookStore openBook_bookStore
        openBook_categoryStore)
  show "\<exists>s'. step s line = Inr s' \<and> resolveLibrary s' = resolveLibrary s \<and>
         library s' = library s \<and> categoryStore s' = categoryStore s \<and>
         (\<forall>b<nextBook s. bookStore s' b = bookStore s b)"
    using sv stores by (simp add: step_eq sameView_def)
  show "\<exists>s1 s2. forEach initialState (pre @ line # rest) = Inr s1 \<and>
         forEach initialState (pre @ rest) = Inr s2 \<and> resolveLibrary s1 = resolveLibrary s2"
    using run sv by (rule line_without_effect_runs)
  assume "split (CHR 0x0A) text1 = pre @ line # rest \<and> split (CHR 0x0A) text2 = pre @ rest"
  with run sv show "\<exists>lib. parseTextToLibrary text1 = Inr lib \<and> parseTextToLibrary text2 = Inr lib"
    by (rule line_without_effect_parse)
next
  assume "isContentLine line \<and> currentPart s = None"
  then show "step s line = Inr s"
    by (simp add: step_eq nextState_other contentResult_def split: option.split)
next
  show "parseTextToLibrary ''[EN]\<newline>Hello'' = Inr []" by code_simp
qed

theorem orphan_heading_is_discarded_witness:
  "\<exists>lib. parseTextToLibrary
            ''# C\<newline>### Orphan\<newline>[EN]\<newline>lost\<newline>## B\<newline>### S\<newline>[EN]\<newline>kept'' = Inr lib \<and>
         parseTextToLibrary ''# C\<newline>[EN]\<newline>lost\<newline>## B\<newline>### S\<newline>[EN]\<newline>kept'' = Inr lib"
proof -
  let ?pre = "[''# C'']"
  let ?rest = "[''[EN]'', ''lost'', ''## B'', ''### S'', ''[EN]'', ''kept'']"
  let ?t1 = "''# C\<newline>### Orphan\<newline>[EN]\<newline>lost\<newline>## B\<newline>### S\<newline>[EN]\<newline>kept''"
  let ?t2 = "''# C\<newline>[EN]\<newline>lost\<newline>## B\<newline>### S\<newline>[EN]\<newline>kept''"
  have a: "forEach initialState ?pre = Inr (foldl nextState initialState ?pre)"
    by (rule forEach_eq)
  have b: "startsWith (trim ''### Orphan'') ''###'' \<and>
           currentBook (foldl nextState initialState ?pre) = None" by code_simp
  have d: "split (CHR 0x0A) ?t1 = ?pre @ ''### Orphan'' # ?rest" by code_simp
  have e: "split (CHR 0x0A) ?t2 = ?pre @ ?rest" by code_simp
  from orphan_heading_is_discarded [of ?pre "foldl nextState initialState ?pre" "''### Orphan''"
      ?rest ?t1 ?t2] a b d e
  show ?thesis by blast
qed

section \<open>The copy of the parser that draws its identifiers\<close>

text \<open>
  A second copy of ContentService in the repository has the same loop and gives every
  Category, Book, Section and Part the identifier
  \<^verbatim>\<open>Math.random().toString(36).substr(2, 9)\<close>.
  The model takes the draws as a parameter: \<open>draws k\<close> is the string that the k-th
  evaluation of that expression returns during the call, and the state counts the
  evaluations made so far. This copy keeps no part counter.
\<close>

definition createNewPart_random :: "(nat \<Rightarrow> string) \<Rightarrow> parser_state \<times> nat \<Rightarrow> parser_state \<times> nat" where
  "createNewPart_random draws sk =
     (let s = fst sk; k = snd sk;
          p = nextPart s;
          s1 = s\<lparr>partStore := (partStore s)
                   (p := \<lparr>part_id = draws k, part_type = Prayer, content = []\<rparr>),
                 nextPart := Suc p,
                 currentPart := Some p\<rparr>
      in (case currentSection s of
            None \<Rightarrow> s1
          | Some a \<Rightarrow>
              s1\<lparr>sectionStore := (sectionStore s1)
                    (a := (sectionStore s1 a)\<lparr>so_parts := so_parts (sectionStore s1 a) @ [p]\<rparr>)\<rparr>,
          Suc k))"

definition sectionHeading_random ::
  "(nat \<Rightarrow> string) \<Rightarrow> parser_state \<times> nat \<Rightarrow> string \<Rightarrow> error + parser_state \<times> nat" where
  "sectionHeading_random draws sk trimmed =
     (let s = fst sk; k = snd sk;
          a = nextSection s;
          s1 = s\<lparr>sectionStore := (sectionStore s)
                   (a := \<lparr>so_id = draws k, so_title = trim (replaceFirst ''###'' [] trimmed),
                          so_parts = []\<rparr>),
                 nextSection := Suc a,
                 currentSection := Some a\<rparr>
      in andThen
           (case currentBook s1 of
              None \<Rightarrow> Inr s1
            | Some b \<Rightarrow>
                (let s2 = (if bo_sections (bookStore s1 b) = None
                           then s1\<lparr>bookStore := (bookStore s1)(b := (bookStore s1 b)\<lparr>bo_sections := Some []\<rparr>)\<rparr>
                           else s1)
                 in andThen (push (bo_sections (bookStore s2 b)) a)
                      (\<lambda>ss. Inr (s2\<lparr>bookStore := (bookStore s2)(b := (bookStore s2 b)\<lparr>bo_sections := Some ss\<rparr>)\<rparr>))))
           (\<lambda>s3. let r = createNewPart_random draws (s3, Suc k)
                 in Inr ((fst r)\<lparr>currentLang := None\<rparr>, snd r)))"

definition bookHeading_random ::
  "(nat \<Rightarrow> string) \<Rightarrow> parser_state \<times> nat \<Rightarrow> string \<Rightarrow> error + parser_state \<times> nat" where
  "bookHeading_random draws sk trimmed =
     (let s = fst sk; k = snd sk;
          b = nextBook s;
          s1 = s\<lparr>bookStore := (bookStore s)
                   (b := \<lparr>bo_id = draws k, bo_title = trim (replaceFirst ''##'' [] trimmed),
                          bo_sections = Some []\<rparr>),
                 nextBook := Suc b,
                 currentBook := Some b\<rparr>
      in andThen
           (case currentCat s1 of
              None \<Rightarrow> Inr s1
            | Some c \<Rightarrow>
                (let s2 = (if co_children (categoryStore s1 c) = None
                           then s1\<lparr>categoryStore := (categoryStore s1)(c := (categoryStore s1 c)\<lparr>co_children := Some []\<rparr>)\<rparr>
                           else s1)
                 in andThen (push (co_children (categoryStore s2 c)) b)
                      (\<lambda>bs. Inr (s2\<lparr>categoryStore := (categoryStore s2)(c := (categoryStore s2 c)\<lparr>co_children := Some bs\<rparr>)\<rparr>))))
           (\<lambda>s3. Inr (s3\<lparr>currentSection := None, currentPart := None\<rparr>, Suc k)))"

definition categoryHeading_random ::
  "(nat \<Rightarrow> string) \<Rightarrow> parser_state \<times> nat \<Rightarrow> string \<Rightarrow> error + parser_state \<times> nat" where
  "categoryHeading_random draws sk trimmed =
     (let s = fst sk; k = snd sk;
          c = nextCategory s
      in Inr (s\<lparr>categoryStore := (categoryStore s)
                   (c := \<lparr>co_id = draws k, co_title = trim (replaceFirst ''#'' [] trimmed),
                          co_children = Some []\<rparr>),
                nextCategory := Suc c,
                library := library s @ [c],
                currentCat := Some c, currentBook := None,
                currentSection := None, currentPart := None\<rparr>, Suc k))"

definition step_random ::
  "(nat \<Rightarrow> string) \<Rightarrow> parser_state \<times> nat \<Rightarrow> string \<Rightarrow> error + parser_state \<times> nat" where
  "step_random draws sk line =
     (let s = fst sk; k = snd sk; trimmed = trim line in
      if trimmed = [] \<and> currentLang s = None then Inr sk
      else if startsWith trimmed ''###'' then sectionHeading_random draws sk trimmed
      else if startsWith trimmed ''##'' then bookHeading_random draws sk trimmed
      else if startsWith trimmed ''#'' then categoryHeading_random draws sk trimmed
      else if trimmed = ''---'' then
        (let r = createNewPart_random draws sk in Inr ((fst r)\<lparr>currentLang := None\<rparr>, snd r))
      else if toUpperCase trimmed = ''[EN]'' then Inr (s\<lparr>currentLang := Some ENGLISH\<rparr>, k)
      else if toUpperCase trimmed = ''[COP]'' then Inr (s\<lparr>currentLang := Some COPTIC\<rparr>, k)
      else if toUpperCase trimmed = ''[AR]'' then Inr (s\<lparr>currentLang := Some ARABIC\<rparr>, k)
      else if toUpperCase trimmed = ''[TRAN-EN]'' then Inr (s\<lparr>currentLang := Some TRANSLITERATED_ENGLISH\<rparr>, k)
      else if toUpperCase trimmed = ''[TRAN-AR]'' then Inr (s\<lparr>currentLang := Some TRANSLITERATED_ARABIC\<rparr>, k)
      else (case currentLang s of
              None \<Rightarrow> Inr sk
            | Some l \<Rightarrow>
                (case currentPart s of
                   None \<Rightarrow> Inr sk
                 | Some p \<Rightarrow> andThen (contentLine s l p trimmed) (\<lambda>s'. Inr (s', k)))))"

fun forEach_random ::
  "(nat \<Rightarrow> string) \<Rightarrow> parser_state \<times> nat \<Rightarrow> string list \<Rightarrow> error + parser_state \<times> nat" where
  "forEach_random draws sk [] = Inr sk"
| "forEach_random draws sk (line # rest) =
     andThen (step_random draws sk line) (\<lambda>sk'. forEach_random draws sk' rest)"

definition parseTextToLibrary_random :: "(nat \<Rightarrow> string) \<Rightarrow> string \<Rightarrow> error + LibraryItem list" where
  "parseTextToLibrary_random draws text =
     (if trim text = [] then Inr []
      else andThen (forEach_random draws (initialState, 0) (split (CHR 0x0A) text))
             (\<lambda>sk. Inr (resolveLibrary (fst sk))))"

definition firstCall :: "nat \<Rightarrow> string" where
  "firstCall k = ''k3x9q0z1m''"

definition secondCall :: "nat \<Rightarrow> string" where
  "secondCall k = ''7w2c5d8ab''"

text \<open>
  C1 on the copy that draws identifiers: the same text parsed in two calls whose draws
  differ gives two Libraries whose identifiers differ. (The copy with slugs computes its
  identifiers from the text alone.)
\<close>

theorem random_identifiers_differ:
  "parseTextToLibrary_random firstCall ''# Cat'' =
     Inr [LibraryItem ''k3x9q0z1m'' ''Cat'' Category (Some []) None] \<and>
   parseTextToLibrary_random secondCall ''# Cat'' =
     Inr [LibraryItem ''7w2c5d8ab'' ''Cat'' Category (Some []) None] \<and>
   parseTextToLibrary_random firstCall ''# Cat'' \<noteq> parseTextToLibrary_random secondCall ''# Cat''"
proof -
  have 1: "parseTextToLibrary_random firstCall ''# Cat'' =
     Inr [LibraryItem ''k3x9q0z1m'' ''Cat'' Category (Some []) None]" by code_simp
  have 2: "parseTextToLibrary_random secondCall ''# Cat'' =
     Inr [LibraryItem ''7w2c5d8ab'' ''Cat'' Category (Some []) None]" by code_simp
  show ?thesis unfolding 1 2 by simp
qed

end
